theory Spec2Isabelle
  imports Complex_Main "HOL-Library.Multiset"
begin

section \<open>Data model (models/types)\<close>

text \<open>
  The TypeScript interfaces become records. The fields \<open>id\<close> of Location and of Vehicle
  are \<open>id_loc\<close> and \<open>id_veh\<close> (\<open>id\<close> is the identity function of HOL), and the aggregate
  fields of VRPTWSolution that share a name with a Route field carry the suffix \<open>_sol\<close>.

  Numbers: coordinates and distances are real numbers, the idealisation of the doubles
  that the trigonometry of the Haversine formula works on. Demands, capacities, minutes
  and the entries of the time matrix are integer-valued doubles, as in the repository's
  data and as \<open>Math.round\<close> produces them; fractional demands are outside the model.
  The minutes are added exactly: on integers of magnitude below \<open>2 ^ 53\<close> the additions
  and comparisons of doubles are exact. A read beyond the end of a row of the time
  matrix gives \<open>undefined\<close> in the source, which arithmetic turns into NaN: such a
  number is an \<open>int option\<close>, with \<open>None\<close> for NaN. The demands of a route are added
  as the doubles are, each sum rounded to the nearest double (\<open>js_add\<close> below), since
  the order of the additions changes with every insertion.
\<close>

record location =
  id_loc :: string
  name :: string
  lat :: real
  lng :: real
  demand :: int
  readyTime :: int
  dueTime :: int
  serviceTime :: int

record vehicle =
  id_veh :: string
  capacity :: int
  startLocation :: location
  endLocation :: location
  color :: string

record route =
  vehicleId :: string
  locations :: "location list"
  totalDistance :: real
  totalTime :: int
  feasible :: bool
  infeasibilityReason :: string

record solution =
  routes :: "route list"
  unassignedLocations :: "location list"
  totalDistance_sol :: real
  totalTime_sol :: int
  feasible_sol :: bool
  infeasibilityReasons :: "string list"

text \<open>The only exception the solver can raise: a property read on \<open>undefined\<close>.\<close>

datatype error = TypeError

section \<open>Distance and time model\<close>

text \<open>\<open>Math.atan2 y x\<close> on real numbers (signed zeros are not modelled).\<close>

definition atan2 :: "real \<Rightarrow> real \<Rightarrow> real" where
  "atan2 y x =
     (if 0 < x then arctan (y / x)
      else if x < 0 \<and> 0 \<le> y then arctan (y / x) + pi
      else if x < 0 \<and> y < 0 then arctan (y / x) - pi
      else if 0 < y then pi / 2
      else if y < 0 then - (pi / 2)
      else 0)"

definition calculateDistance :: "real \<Rightarrow> real \<Rightarrow> real \<Rightarrow> real \<Rightarrow> real" where
  "calculateDistance lat1 lon1 lat2 lon2 =
     (let R = 6371;
          dLat = ((lat2 - lat1) * pi) / 180;
          dLon = ((lon2 - lon1) * pi) / 180;
          a = sin (dLat / 2) * sin (dLat / 2) +
              cos ((lat1 * pi) / 180) * cos ((lat2 * pi) / 180) * sin (dLon / 2) * sin (dLon / 2);
          c = 2 * atan2 (sqrt a) (sqrt (1 - a))
      in R * c)"

text \<open>\<open>Math.round\<close>: the nearest integer, a half rounded towards plus infinity.\<close>

definition Math_round :: "real \<Rightarrow> int" where
  "Math_round x = \<lfloor>x + 1 / 2\<rfloor>"

text \<open>The distance between two locations, as every call site passes the coordinates.\<close>

definition distanceBetween :: "location \<Rightarrow> location \<Rightarrow> real" where
  "distanceBetween a b = calculateDistance (lat a) (lng a) (lat b) (lng b)"

text \<open>The two nested loops over \<open>i\<close> and \<open>j\<close> fill row \<open>i\<close>, column \<open>j\<close>.\<close>

definition generateTimeMatrix :: "location list \<Rightarrow> int list list" where
  "generateTimeMatrix locs =
     map (\<lambda>i. map (\<lambda>j. if i = j then 0
                        else Math_round ((distanceBetween (locs ! i) (locs ! j) / 50) * 60))
                [0..<length locs])
         [0..<length locs]"

section \<open>Greedy insertion solver\<close>

subsection \<open>JavaScript primitives\<close>

text \<open>\<open>Number.MAX_VALUE\<close>, the largest finite double, is an integer.\<close>

definition MAX_VALUE :: int where
  "MAX_VALUE = 2 ^ 1024 - 2 ^ 971"

text \<open>\<open>Array.prototype.find\<close> is \<open>List.find\<close>; \<open>findIndex\<close> returns \<open>None\<close> for \<open>-1\<close>.\<close>

fun findIndex :: "('a \<Rightarrow> bool) \<Rightarrow> 'a list \<Rightarrow> nat option" where
  "findIndex p [] = None"
| "findIndex p (x # xs) =
     (if p x then Some 0 else (case findIndex p xs of None \<Rightarrow> None | Some k \<Rightarrow> Some (Suc k)))"

text \<open>
  \<open>timeMatrix[i][j]\<close>: a missing row is \<open>undefined\<close>, and reading its property \<open>j\<close> throws;
  a missing entry of an existing row is \<open>undefined\<close>, which is NaN in the arithmetic.
\<close>

definition matrixRow :: "int list list \<Rightarrow> nat \<Rightarrow> error + int list" where
  "matrixRow m i = (if i < length m then Inr (m ! i) else Inl TypeError)"

definition rowEntry :: "int list \<Rightarrow> nat \<Rightarrow> int option" where
  "rowEntry row j = (if j < length row then Some (row ! j) else None)"

definition num_add :: "int option \<Rightarrow> int option \<Rightarrow> int option" where
  "num_add a b = (case a of None \<Rightarrow> None
                  | Some x \<Rightarrow> (case b of None \<Rightarrow> None | Some y \<Rightarrow> Some (x + y)))"

definition num_sub :: "int option \<Rightarrow> int option \<Rightarrow> int option" where
  "num_sub a b = (case a of None \<Rightarrow> None
                  | Some x \<Rightarrow> (case b of None \<Rightarrow> None | Some y \<Rightarrow> Some (x - y)))"

text \<open>Every comparison with NaN is false.\<close>

definition num_lt :: "int option \<Rightarrow> int option \<Rightarrow> bool" where
  "num_lt a b = (case a of None \<Rightarrow> False
                 | Some x \<Rightarrow> (case b of None \<Rightarrow> False | Some y \<Rightarrow> x < y))"

text \<open>
  The doubles of integer value, the two infinities and NaN. The sum of two doubles is
  their exact sum rounded to the nearest double, a tie going to the even significand,
  and infinite beyond the range of the doubles. For an integer of magnitude \<open>a\<close> the
  neighbouring doubles are the multiples of \<open>ulp a\<close>: 1 below \<open>2 ^ 53\<close>, doubled with every
  further binary digit, so that the significand \<open>a div ulp a\<close> has 53 digits. Signed zeros
  are not modelled.
\<close>

datatype jsnum = Finite int | Infinity | NegInfinity | NaN

function ulp :: "int \<Rightarrow> int" where
  "ulp n = (if n < 2 ^ 53 then 1 else 2 * ulp (n div 2))"
  by pat_completeness auto
termination
  by (relation "measure nat") auto

declare ulp.simps [simp del]

definition roundDouble :: "int \<Rightarrow> jsnum" where
  "roundDouble x =
     (let a = \<bar>x\<bar>;
          u = ulp a;
          q = a div u;
          r = a mod u;
          m = (if 2 * r < u \<or> (2 * r = u \<and> even q) then q * u else (q + 1) * u)
      in if 2 ^ 1024 \<le> m then (if x < 0 then NegInfinity else Infinity)
         else Finite (if x < 0 then - m else m))"

fun js_add :: "jsnum \<Rightarrow> jsnum \<Rightarrow> jsnum" where
  "js_add (Finite x) (Finite y) = roundDouble (x + y)"
| "js_add NaN b = NaN"
| "js_add a NaN = NaN"
| "js_add Infinity NegInfinity = NaN"
| "js_add NegInfinity Infinity = NaN"
| "js_add Infinity b = Infinity"
| "js_add a Infinity = Infinity"
| "js_add NegInfinity b = NegInfinity"
| "js_add a NegInfinity = NegInfinity"

text \<open>\<open>a > b\<close> on these numbers.\<close>

fun js_gt :: "jsnum \<Rightarrow> jsnum \<Rightarrow> bool" where
  "js_gt NaN b = False"
| "js_gt a NaN = False"
| "js_gt (Finite x) (Finite y) = (y < x)"
| "js_gt Infinity Infinity = False"
| "js_gt Infinity b = True"
| "js_gt a Infinity = False"
| "js_gt NegInfinity b = False"
| "js_gt a NegInfinity = True"

text \<open>\<open>xs.splice(p, 0, x)\<close> for \<open>p \<le> xs.length\<close>.\<close>

definition splice_at :: "nat \<Rightarrow> 'a \<Rightarrow> 'a list \<Rightarrow> 'a list" where
  "splice_at p x xs = take p xs @ x # drop p xs"

text \<open>A loop whose body may throw: the first exception ends it.\<close>

fun foldE :: "('a \<Rightarrow> 's \<Rightarrow> error + 's) \<Rightarrow> 'a list \<Rightarrow> 's \<Rightarrow> error + 's" where
  "foldE f [] s = Inr s"
| "foldE f (x # xs) s = (case f x s of Inl e \<Rightarrow> Inl e | Inr s' \<Rightarrow> foldE f xs s')"

subsection \<open>The search for the best slot of one customer\<close>

text \<open>The four variables declared at the head of the loop over the customers.\<close>

record search =
  bestRouteIndex :: int
  bestIncrease :: int
  bestPosition :: int
  assignmentPossible :: bool

definition initSearch :: search where
  "initSearch = \<lparr> bestRouteIndex = - 1, bestIncrease = MAX_VALUE,
                   bestPosition = - 1, assignmentPossible = False \<rparr>"

text \<open>
  What the body of the loop over the positions decides for position \<open>i\<close> of a route:
  the slot is skipped for a missing index, rejected by the customer's own time window,
  rejected by the time window of the next stop, or feasible with its insertion cost.
\<close>

datatype slot = Skipped | Late | Delays | Feasible "int option"

definition checkSlot ::
  "location \<Rightarrow> location list \<Rightarrow> int list list \<Rightarrow> location \<Rightarrow> route \<Rightarrow> nat \<Rightarrow> error + slot" where
  "checkSlot depot customers timeMatrix customer route i =
     (let prev = locations route ! i;
          next = (if i + 1 < length (locations route) then locations route ! (i + 1) else depot);
          prevIndex = findIndex (\<lambda>l. id_loc l = id_loc prev) (customers @ [depot]);
          customerIndex = findIndex (\<lambda>l. id_loc l = id_loc customer) (customers @ [depot]);
          nextIndex = findIndex (\<lambda>l. id_loc l = id_loc next) (customers @ [depot])
      in (case prevIndex of None \<Rightarrow> Inr Skipped | Some p \<Rightarrow>
         (case customerIndex of None \<Rightarrow> Inr Skipped | Some c \<Rightarrow>
         (case nextIndex of None \<Rightarrow> Inr Skipped | Some n \<Rightarrow>
         (case matrixRow timeMatrix p of Inl e \<Rightarrow> Inl e | Inr rowP \<Rightarrow>
         (case matrixRow timeMatrix c of Inl e \<Rightarrow> Inl e | Inr rowC \<Rightarrow>
           (let timeToCustomer = rowEntry rowP c;
                timeFromCustomer = rowEntry rowC n;
                increase = num_sub (num_add timeToCustomer timeFromCustomer) (rowEntry rowP n);
                currentTime = totalTime route;
                arrivalTime0 = num_add (Some currentTime) timeToCustomer;
                arrivalTime = (if num_lt arrivalTime0 (Some (readyTime customer))
                               then Some (readyTime customer) else arrivalTime0)
            in if num_lt (Some (dueTime customer)) arrivalTime then Inr Late
               else
                 (let departureTime = num_add arrivalTime (Some (serviceTime customer));
                      arrivalNextTime = num_add departureTime timeFromCustomer
                  in if id_loc next \<noteq> id_loc depot \<and>
                        num_lt (Some (dueTime next)) arrivalNextTime
                     then Inr Delays
                     else Inr (Feasible increase)))))))))"

text \<open>The messages; the bytes of the accented letters are those of UTF-8.\<close>

definition msgCapacity :: "location \<Rightarrow> string" where
  "msgCapacity customer = ''Capacidad insuficiente para cliente '' @ name customer"

definition msgLate :: "location \<Rightarrow> string" where
  "msgLate customer = ''No se puede llegar a tiempo a '' @ name customer"

definition msgDelays :: "location \<Rightarrow> string" where
  "msgDelays customer =
     ''La inserci'' @ [CHR 0xC3, CHR 0xB3] @ ''n de '' @ name customer @
     '' causar'' @ [CHR 0xC3, CHR 0xAD] @ ''a retraso en siguiente cliente''"

definition msgUnassigned :: "location \<Rightarrow> string" where
  "msgUnassigned customer =
     ''No se pudo asignar '' @ name customer @ '' debido a restricciones de tiempo o capacidad''"

text \<open>The comparison \<open>increase < bestIncrease\<close> and the three assignments under it.\<close>

definition recordSlot :: "nat \<Rightarrow> nat \<Rightarrow> int option \<Rightarrow> search \<Rightarrow> search" where
  "recordSlot r i increase s =
     (case increase of
        None \<Rightarrow> s\<lparr>assignmentPossible := True\<rparr>
      | Some inc \<Rightarrow>
          if inc < bestIncrease s
          then s\<lparr>assignmentPossible := True, bestIncrease := inc,
                 bestRouteIndex := int r, bestPosition := int (i + 1)\<rparr>
          else s\<lparr>assignmentPossible := True\<rparr>)"

text \<open>One turn of the loop over the positions of route \<open>r\<close>.\<close>

definition trySlot ::
  "location \<Rightarrow> location list \<Rightarrow> int list list \<Rightarrow> location \<Rightarrow> nat \<Rightarrow> nat \<Rightarrow>
   route \<times> search \<Rightarrow> error + route \<times> search" where
  "trySlot depot customers timeMatrix customer r i rs =
     (case rs of (route, s) \<Rightarrow>
        (case checkSlot depot customers timeMatrix customer route i of
           Inl e \<Rightarrow> Inl e
         | Inr Skipped \<Rightarrow> Inr (route, s)
         | Inr Late \<Rightarrow> Inr (route\<lparr>infeasibilityReason := msgLate customer\<rparr>, s)
         | Inr Delays \<Rightarrow> Inr (route\<lparr>infeasibilityReason := msgDelays customer\<rparr>, s)
         | Inr (Feasible increase) \<Rightarrow> Inr (route, recordSlot r i increase s)))"

text \<open>
  The sum of the demands of a sequence of locations, as \<open>reduce\<close> adds them from 0 in the
  order of the sequence, and the sum for a route, the depot included.
\<close>

definition sumDemands :: "location list \<Rightarrow> jsnum" where
  "sumDemands locs = foldl (\<lambda>sum loc. js_add sum (Finite (demand loc))) (Finite 0) locs"

definition routeDemand :: "route \<Rightarrow> jsnum" where
  "routeDemand route = sumDemands (locations route)"

text \<open>
  One turn of the loop over the routes: the vehicle lookup (the non-null assertion does
  nothing at run time, so a lookup that finds nothing throws when the capacity is read),
  the capacity check, and the loop over the positions.
\<close>

definition tryRoute ::
  "location \<Rightarrow> location list \<Rightarrow> vehicle list \<Rightarrow> int list list \<Rightarrow> location \<Rightarrow> nat \<Rightarrow>
   route \<times> search \<Rightarrow> error + route \<times> search" where
  "tryRoute depot customers vehicles timeMatrix customer r rs =
     (case rs of (route, s) \<Rightarrow>
        (case find (\<lambda>v. id_veh v = vehicleId route) vehicles of
           None \<Rightarrow> Inl TypeError
         | Some vehicle \<Rightarrow>
             if js_gt (js_add (routeDemand route) (Finite (demand customer)))
                      (Finite (capacity vehicle))
             then Inr (route\<lparr>infeasibilityReason := msgCapacity customer\<rparr>, s)
             else foldE (trySlot depot customers timeMatrix customer r)
                        [0..<length (locations route)] (route, s)))"

text \<open>The loop over the routes, from index \<open>r\<close> on; each route keeps its place.\<close>

fun searchRoutes ::
  "location \<Rightarrow> location list \<Rightarrow> vehicle list \<Rightarrow> int list list \<Rightarrow> location \<Rightarrow> nat \<Rightarrow>
   route list \<Rightarrow> search \<Rightarrow> error + route list \<times> search" where
  "searchRoutes depot customers vehicles timeMatrix customer r [] s = Inr ([], s)"
| "searchRoutes depot customers vehicles timeMatrix customer r (route # rest) s =
     (case tryRoute depot customers vehicles timeMatrix customer r (route, s) of
        Inl e \<Rightarrow> Inl e
      | Inr (route', s') \<Rightarrow>
          (case searchRoutes depot customers vehicles timeMatrix customer (Suc r) rest s' of
             Inl e \<Rightarrow> Inl e
           | Inr (rest', s'') \<Rightarrow> Inr (route' # rest', s'')))"

subsection \<open>Insertion, closing of the routes and the whole solver\<close>

text \<open>The recomputation of a route's distance: the loop over \<open>i < length - 1\<close>.\<close>

definition routeDistance :: "location list \<Rightarrow> real" where
  "routeDistance locs =
     foldl (\<lambda>d i. d + distanceBetween (locs ! i) (locs ! (i + 1))) 0 [0..<length locs - 1]"

text \<open>
  The insertion of the customer into the chosen route: the splice, the insertion cost
  added to \<open>totalTime\<close>, and the distance recomputed over the new sequence.
\<close>

definition insertCustomer :: "location \<Rightarrow> nat \<Rightarrow> int \<Rightarrow> route \<Rightarrow> route" where
  "insertCustomer customer position increase route =
     (let locs = splice_at position customer (locations route)
      in route\<lparr>locations := locs,
               totalTime := totalTime route + increase,
               totalDistance := routeDistance locs\<rparr>)"

text \<open>The three accumulators of the solver while the customers are processed.\<close>

record solver =
  routes_st :: "route list"
  unassigned_st :: "location list"
  reasons_st :: "string list"

text \<open>The body of the loop over the sorted customers.\<close>

definition processCustomer ::
  "location \<Rightarrow> location list \<Rightarrow> vehicle list \<Rightarrow> int list list \<Rightarrow> location \<Rightarrow>
   solver \<Rightarrow> error + solver" where
  "processCustomer depot customers vehicles timeMatrix customer st =
     (case searchRoutes depot customers vehicles timeMatrix customer 0 (routes_st st) initSearch of
        Inl e \<Rightarrow> Inl e
      | Inr (rts, s) \<Rightarrow>
          if bestRouteIndex s \<noteq> - 1
          then
            Inr (st\<lparr>routes_st :=
                      rts[nat (bestRouteIndex s) :=
                            insertCustomer customer (nat (bestPosition s)) (bestIncrease s)
                              (rts ! nat (bestRouteIndex s))]\<rparr>)
          else
            Inr (st\<lparr>routes_st := rts,
                    unassigned_st := unassigned_st st @ [customer],
                    reasons_st := (if \<not> assignmentPossible s
                                   then reasons_st st @ [msgUnassigned customer]
                                   else reasons_st st)\<rparr>))"

text \<open>The body of the last loop: the depot is appended to a route that left it.\<close>

definition closeRoute :: "location \<Rightarrow> route \<Rightarrow> route" where
  "closeRoute depot route =
     (if length (locations route) > 1 \<and> id_loc (last (locations route)) \<noteq> id_loc depot
      then route\<lparr>locations := locations route @ [depot],
                 totalDistance := routeDistance (locations route @ [depot])\<rparr>
      else route)"

definition initRoute :: "location \<Rightarrow> vehicle \<Rightarrow> route" where
  "initRoute depot vehicle =
     \<lparr> vehicleId = id_veh vehicle, locations = [depot], totalDistance = 0, totalTime = 0,
       feasible = True, infeasibilityReason = '''' \<rparr>"

text \<open>
  The customers sorted by \<open>readyTime\<close>: \<open>Array.prototype.sort\<close> is stable, and so is the
  insertion sort \<open>sort_key\<close>.
\<close>

definition sortedCustomers :: "location list \<Rightarrow> location list" where
  "sortedCustomers customers = sort_key readyTime customers"

definition initSolver :: "location \<Rightarrow> vehicle list \<Rightarrow> solver" where
  "initSolver depot vehicles =
     \<lparr> routes_st = map (initRoute depot) vehicles, unassigned_st = [], reasons_st = [] \<rparr>"

text \<open>The state of the solver after the customers \<open>cs\<close> have been processed in turn.\<close>

definition processAll ::
  "location \<Rightarrow> location list \<Rightarrow> vehicle list \<Rightarrow> int list list \<Rightarrow> location list \<Rightarrow>
   solver \<Rightarrow> error + solver" where
  "processAll depot customers vehicles timeMatrix cs st =
     foldE (processCustomer depot customers vehicles timeMatrix) cs st"

definition finish :: "location \<Rightarrow> solver \<Rightarrow> solution" where
  "finish depot st =
     (let rts = map (closeRoute depot) (routes_st st)
      in \<lparr> routes = rts,
           unassignedLocations = unassigned_st st,
           totalDistance_sol = foldl (\<lambda>sum route. sum + totalDistance route) 0 rts,
           totalTime_sol = foldl (\<lambda>sum route. sum + totalTime route) 0 rts,
           feasible_sol = (length (unassigned_st st) = 0 \<and> list_all feasible rts),
           infeasibilityReasons = reasons_st st \<rparr>)"

definition solveVRPTW ::
  "location \<Rightarrow> location list \<Rightarrow> vehicle list \<Rightarrow> int list list \<Rightarrow> error + solution" where
  "solveVRPTW depot customers vehicles timeMatrix =
     (case processAll depot customers vehicles timeMatrix (sortedCustomers customers)
             (initSolver depot vehicles) of
        Inl e \<Rightarrow> Inl e
      | Inr st \<Rightarrow> Inr (finish depot st))"

section \<open>Notions used in the statements\<close>

subsection \<open>Feasible slots\<close>

text \<open>
  The capacity check of the loop over the routes, as a predicate: the vehicle of the
  route is found and the demand of the route with the customer fits its capacity.
\<close>

definition capacityOk :: "vehicle list \<Rightarrow> location \<Rightarrow> route \<Rightarrow> bool" where
  "capacityOk vehicles customer route =
     (case find (\<lambda>v. id_veh v = vehicleId route) vehicles of
        None \<Rightarrow> False
      | Some vehicle \<Rightarrow>
          \<not> js_gt (js_add (routeDemand route) (Finite (demand customer)))
                   (Finite (capacity vehicle)))"

text \<open>
  Position \<open>i\<close> of route \<open>r\<close> passes the three checks for the customer, with insertion
  cost \<open>increase\<close>: the capacity check of the route, and the two time-window checks of
  \<open>checkSlot\<close>.
\<close>

definition feasibleSlot ::
  "location \<Rightarrow> location list \<Rightarrow> vehicle list \<Rightarrow> int list list \<Rightarrow> route list \<Rightarrow> location \<Rightarrow>
   nat \<Rightarrow> nat \<Rightarrow> int option \<Rightarrow> bool" where
  "feasibleSlot depot customers vehicles timeMatrix rts customer r i increase =
     (r < length rts \<and> i < length (locations (rts ! r)) \<and>
      capacityOk vehicles customer (rts ! r) \<and>
      checkSlot depot customers timeMatrix customer (rts ! r) i = Inr (Feasible increase))"

text \<open>
  A time matrix for the customers and the depot: square, with non-negative entries small
  enough for every insertion cost to stay below \<open>Number.MAX_VALUE\<close>.
\<close>

definition wellFormedMatrix :: "location list \<Rightarrow> int list list \<Rightarrow> bool" where
  "wellFormedMatrix customers timeMatrix =
     (length timeMatrix = length customers + 1 \<and>
      list_all (\<lambda>row. length row = length customers + 1 \<and>
                       list_all (\<lambda>e. 0 \<le> e \<and> 2 * e < MAX_VALUE) row) timeMatrix)"

text \<open>\<open>Number.MAX_SAFE_INTEGER\<close>: up to it the integers are doubles one apart.\<close>

definition MAX_SAFE_INTEGER :: int where
  "MAX_SAFE_INTEGER = 2 ^ 53 - 1"

subsection \<open>The search as a fold over the feasible slots\<close>

text \<open>
  The search writes nothing but \<open>infeasibilityReason\<close> into a route; \<open>sansReason\<close> forgets
  that field.
\<close>

definition sansReason :: "route \<Rightarrow> route" where
  "sansReason route = route\<lparr>infeasibilityReason := []\<rparr>"

text \<open>
  The feasible slots in the order in which the two nested loops meet them, each with
  its route index, its position and its cost, and the effect of the loops on the four
  search variables: \<open>recordSlot\<close> applied to each of them in turn.
\<close>

definition slotCands ::
  "location \<Rightarrow> location list \<Rightarrow> int list list \<Rightarrow> location \<Rightarrow> nat \<Rightarrow> route \<Rightarrow> nat list \<Rightarrow>
   (nat \<times> nat \<times> int option) list" where
  "slotCands depot customers timeMatrix customer r route is =
     concat (map (\<lambda>i. case checkSlot depot customers timeMatrix customer route i of
                         Inr (Feasible increase) \<Rightarrow> [(r, i, increase)]
                       | _ \<Rightarrow> []) is)"

definition routeCands ::
  "location \<Rightarrow> location list \<Rightarrow> vehicle list \<Rightarrow> int list list \<Rightarrow> location \<Rightarrow> nat \<Rightarrow> route \<Rightarrow>
   (nat \<times> nat \<times> int option) list" where
  "routeCands depot customers vehicles timeMatrix customer r route =
     (if capacityOk vehicles customer route
      then slotCands depot customers timeMatrix customer r route [0..<length (locations route)]
      else [])"

fun allCands ::
  "location \<Rightarrow> location list \<Rightarrow> vehicle list \<Rightarrow> int list list \<Rightarrow> location \<Rightarrow> nat \<Rightarrow> route list \<Rightarrow>
   (nat \<times> nat \<times> int option) list" where
  "allCands depot customers vehicles timeMatrix customer r [] = []"
| "allCands depot customers vehicles timeMatrix customer r (route # rest) =
     routeCands depot customers vehicles timeMatrix customer r route @
     allCands depot customers vehicles timeMatrix customer (Suc r) rest"

definition recordAll :: "(nat \<times> nat \<times> int option) list \<Rightarrow> search \<Rightarrow> search" where
  "recordAll cands s = foldl (\<lambda>s (r, i, increase). recordSlot r i increase s) s cands"

definition slotBefore :: "nat \<times> nat \<times> int option \<Rightarrow> nat \<times> nat \<times> int option \<Rightarrow> bool" where
  "slotBefore x y \<longleftrightarrow> fst x < fst y \<or> (fst x = fst y \<and> fst (snd x) < fst (snd y))"

text \<open>
  What the search variables say after the slots \<open>cands\<close>: the flag tells whether there
  was one, no slot costs less than \<open>bestIncrease\<close>, and the recorded slot is the first
  one at that cost.
\<close>

definition bestInv :: "(nat \<times> nat \<times> int option) list \<Rightarrow> search \<Rightarrow> bool" where
  "bestInv cands s \<longleftrightarrow>
     (assignmentPossible s \<longleftrightarrow> cands \<noteq> []) \<and>
     (\<forall>x\<in>set cands. \<not> num_lt (snd (snd x)) (Some (bestIncrease s))) \<and>
     (bestRouteIndex s = - 1 \<longrightarrow> bestIncrease s = MAX_VALUE) \<and>
     (bestRouteIndex s \<noteq> - 1 \<longrightarrow> bestIncrease s < MAX_VALUE) \<and>
     (bestRouteIndex s \<noteq> - 1 \<longrightarrow>
        (\<exists>k<length cands. \<exists>r i. cands ! k = (r, i, Some (bestIncrease s)) \<and>
            bestRouteIndex s = int r \<and> bestPosition s = int (Suc i) \<and>
            (\<forall>j<k. snd (snd (cands ! j)) \<noteq> Some (bestIncrease s))))"

subsection \<open>Sample inputs\<close>

text \<open>
  A depot and three customers on the equator and just north of it, one vehicle, and
  the travel times in minutes between them at 50 km/h (rows and columns in the order
  c1, c2, c3, depot). The customer \<open>c2\<close> must be reached by minute 50.
\<close>

definition exLocation :: "string \<Rightarrow> real \<Rightarrow> real \<Rightarrow> int \<Rightarrow> int \<Rightarrow> int \<Rightarrow> location" where
  "exLocation i la lo dem ready due =
     \<lparr> id_loc = i, name = i, lat = la, lng = lo, demand = dem,
       readyTime = ready, dueTime = due, serviceTime = 0 \<rparr>"

definition exDepot :: location where
  "exDepot = exLocation ''depot'' 0 0 0 0 1000"

definition exC :: location where
  "exC = exLocation ''c1'' 0 0.15 1 0 1000"

definition exA :: location where
  "exA = exLocation ''c2'' 0.0375 0.075 1 1 50"

definition exB :: location where
  "exB = exLocation ''c3'' 0 0.075 1 2 1000"

definition exCustomers :: "location list" where
  "exCustomers = [exC, exA, exB]"

definition exVehicle :: vehicle where
  "exVehicle = \<lparr> id_veh = ''v1'', capacity = 10, startLocation = exDepot,
                  endLocation = exDepot, color = ''#FF5733'' \<rparr>"

definition exMatrix :: "int list list" where
  "exMatrix = [[0, 11, 10, 20], [11, 0, 5, 11], [10, 5, 0, 10], [20, 11, 10, 0]]"

text \<open>
  The states of the solver on this input: initially, after \<open>c1\<close> (inserted), after \<open>c2\<close>
  (late at both positions, unassigned) and after \<open>c3\<close> (inserted before \<open>c1\<close> at cost 0,
  the first of two positions at that cost); and the solution returned.
\<close>

definition exState0 :: solver where
  "exState0 = \<lparr> routes_st = [\<lparr> vehicleId = ''v1'', locations = [exDepot], totalDistance = 0,
                                 totalTime = 0, feasible = True, infeasibilityReason = [] \<rparr>],
                unassigned_st = [], reasons_st = [] \<rparr>"

definition exState1 :: solver where
  "exState1 = \<lparr> routes_st = [\<lparr> vehicleId = ''v1'', locations = [exDepot, exC],
                                 totalDistance = routeDistance [exDepot, exC],
                                 totalTime = 40, feasible = True, infeasibilityReason = [] \<rparr>],
                unassigned_st = [], reasons_st = [] \<rparr>"

definition exState2 :: solver where
  "exState2 = \<lparr> routes_st = [\<lparr> vehicleId = ''v1'', locations = [exDepot, exC],
                                 totalDistance = routeDistance [exDepot, exC],
                                 totalTime = 40, feasible = True,
                                 infeasibilityReason = msgLate exA \<rparr>],
                unassigned_st = [exA], reasons_st = [msgUnassigned exA] \<rparr>"

definition exState3 :: solver where
  "exState3 = \<lparr> routes_st = [\<lparr> vehicleId = ''v1'', locations = [exDepot, exB, exC],
                                 totalDistance = routeDistance [exDepot, exB, exC],
                                 totalTime = 40, feasible = True,
                                 infeasibilityReason = msgLate exA \<rparr>],
                unassigned_st = [exA], reasons_st = [msgUnassigned exA] \<rparr>"

definition exRoute :: route where
  "exRoute = \<lparr> vehicleId = ''v1'', locations = [exDepot, exB, exC, exDepot],
               totalDistance = routeDistance [exDepot, exB, exC, exDepot], totalTime = 40,
               feasible = True, infeasibilityReason = msgLate exA \<rparr>"

definition exSolution :: solution where
  "exSolution = \<lparr> routes = [exRoute], unassignedLocations = [exA],
                  totalDistance_sol = 0 + routeDistance [exDepot, exB, exC, exDepot],
                  totalTime_sol = 40, feasible_sol = False,
                  infeasibilityReasons = [msgUnassigned exA] \<rparr>"

text \<open>
  A vehicle of negative capacity, and the solution for it when there is no customer.
\<close>

definition exNegVehicle :: vehicle where
  "exNegVehicle = \<lparr> id_veh = ''v1'', capacity = - 1, startLocation = exDepot,
                     endLocation = exDepot, color = ''#FF5733'' \<rparr>"

definition exEmptyRoute :: route where
  "exEmptyRoute = \<lparr> vehicleId = ''v1'', locations = [exDepot], totalDistance = 0,
                    totalTime = 0, feasible = True, infeasibilityReason = [] \<rparr>"

definition exEmptySolution :: solution where
  "exEmptySolution = \<lparr> routes = [exEmptyRoute], unassignedLocations = [],
                       totalDistance_sol = 0, totalTime_sol = 0, feasible_sol = True,
                       infeasibilityReasons = [] \<rparr>"

text \<open>
  A customer that the depot reaches in \<open>Number.MAX_VALUE\<close> minutes, still within its time
  window, and the solution for it.
\<close>

definition exHuge :: location where
  "exHuge = \<lparr> id_loc = ''c1'', name = ''c1'', lat = 0, lng = 0.15, demand = 1,
              readyTime = 0, dueTime = MAX_VALUE, serviceTime = 0 \<rparr>"

definition exHugeMatrix :: "int list list" where
  "exHugeMatrix = [[0, 0], [MAX_VALUE, 0]]"

definition exHugeSolution :: solution where
  "exHugeSolution = \<lparr> routes = [exEmptyRoute], unassignedLocations = [exHuge],
                      totalDistance_sol = 0, totalTime_sol = 0, feasible_sol = False,
                      infeasibilityReasons = [] \<rparr>"

text \<open>
  Two vehicles that share an id, the second of capacity 0, and two customers of demand 6
  at the depot's coordinates (all travel times are 0).
\<close>

definition exZeroVehicle :: vehicle where
  "exZeroVehicle = \<lparr> id_veh = ''v1'', capacity = 0, startLocation = exDepot,
                      endLocation = exDepot, color = ''#33FF57'' \<rparr>"

definition exSix1 :: location where
  "exSix1 = exLocation ''c1'' 0 0 6 0 1000"

definition exSix2 :: location where
  "exSix2 = exLocation ''c2'' 0 0 6 0 1000"

definition exZeroMatrix3 :: "int list list" where
  "exZeroMatrix3 = [[0, 0, 0], [0, 0, 0], [0, 0, 0]]"

definition exDupRoute1 :: route where
  "exDupRoute1 = \<lparr> vehicleId = ''v1'', locations = [exDepot, exSix1, exDepot],
                   totalDistance = routeDistance [exDepot, exSix1, exDepot], totalTime = 0,
                   feasible = True, infeasibilityReason = msgCapacity exSix2 \<rparr>"

definition exDupRoute2 :: route where
  "exDupRoute2 = \<lparr> vehicleId = ''v1'', locations = [exDepot, exSix2, exDepot],
                   totalDistance = routeDistance [exDepot, exSix2, exDepot], totalTime = 0,
                   feasible = True, infeasibilityReason = [] \<rparr>"

definition exDupSolution :: solution where
  "exDupSolution = \<lparr> routes = [exDupRoute1, exDupRoute2], unassignedLocations = [],
                     totalDistance_sol = routeDistance [exDepot, exSix1, exDepot] +
                                         routeDistance [exDepot, exSix2, exDepot],
                     totalTime_sol = 0, feasible_sol = True, infeasibilityReasons = [] \<rparr>"

text \<open>
  A vehicle of capacity \<open>2 ^ 53\<close>, a customer of demand \<open>2 ^ 53\<close> and two customers of
  demand 1, all at the depot's coordinates.
\<close>

definition exBigVehicle :: vehicle where
  "exBigVehicle = \<lparr> id_veh = ''v1'', capacity = 2 ^ 53, startLocation = exDepot,
                     endLocation = exDepot, color = ''#FF5733'' \<rparr>"

definition exBig :: location where
  "exBig = exLocation ''c1'' 0 0 (2 ^ 53) 0 1000"

definition exOne1 :: location where
  "exOne1 = exLocation ''c2'' 0 0 1 0 1000"

definition exOne2 :: location where
  "exOne2 = exLocation ''c3'' 0 0 1 0 1000"

definition exZeroMatrix4 :: "int list list" where
  "exZeroMatrix4 = [[0, 0, 0, 0], [0, 0, 0, 0], [0, 0, 0, 0], [0, 0, 0, 0]]"

definition exBigRoute :: route where
  "exBigRoute = \<lparr> vehicleId = ''v1'', locations = [exDepot, exOne2, exOne1, exBig, exDepot],
                  totalDistance = routeDistance [exDepot, exOne2, exOne1, exBig, exDepot],
                  totalTime = 0, feasible = True, infeasibilityReason = [] \<rparr>"

definition exBigSolution :: solution where
  "exBigSolution = \<lparr> routes = [exBigRoute], unassignedLocations = [],
                     totalDistance_sol = routeDistance [exDepot, exOne2, exOne1, exBig, exDepot],
                     totalTime_sol = 0, feasible_sol = True, infeasibilityReasons = [] \<rparr>"

section \<open>Sums of doubles\<close>

lemma ulp_small: "n < 2 ^ 53 \<Longrightarrow> ulp n = 1"
  by (subst ulp.simps) simp

lemma ulp_step: "2 ^ 53 \<le> n \<Longrightarrow> ulp n = 2 * ulp (n div 2)"
  by (subst ulp.simps) simp

lemma ulp_large: "2 ^ 53 \<le> n \<Longrightarrow> 2 \<le> ulp n \<and> 2 ^ 52 * ulp n \<le> n"
proof (induction n rule: ulp.induct)
  case (1 n)
  show ?case
  proof (cases "n div 2 < 2 ^ 53")
    case True
    with "1.prems" have "ulp n = 2" by (simp add: ulp_step ulp_small)
    with "1.prems" show ?thesis by simp
  next
    case False
    then have big: "2 ^ 53 \<le> n div 2" by simp
    from "1.prems" have "\<not> n < 2 ^ 53" by simp
    from "1.IH" [OF this big] have ih: "2 \<le> ulp (n div 2)" "2 ^ 52 * ulp (n div 2) \<le> n div 2"
      by simp_all
    have half: "2 * (n div 2) \<le> n" by simp
    have eq: "ulp n = 2 * ulp (n div 2)" using "1.prems" by (rule ulp_step)
    have "2 ^ 52 * (2 * ulp (n div 2)) = 2 * (2 ^ 52 * ulp (n div 2))" by simp
    with ih half have "2 ^ 52 * (2 * ulp (n div 2)) \<le> n" by linarith
    with ih(1) show ?thesis unfolding eq by simp
  qed
qed

lemma roundDouble_exact:
  assumes "0 \<le> x" and "x \<le> 2 ^ 53"
  shows "roundDouble x = Finite x"
proof (cases "x < 2 ^ 53")
  case True
  have "(2::int) ^ 53 \<le> 2 ^ 1024" by simp
  with True have "\<not> 2 ^ 1024 \<le> x" by linarith
  with assms True show ?thesis
    by (simp add: roundDouble_def ulp_small Let_def)
next
  case False
  with assms have x: "x = 2 ^ 53" by simp
  show ?thesis unfolding x
    by (simp add: roundDouble_def ulp_small ulp_step Let_def)
qed

lemma roundDouble_large:
  assumes "2 ^ 53 \<le> x"
  shows "roundDouble x = Infinity \<or> (\<exists>m. roundDouble x = Finite m \<and> 2 ^ 53 \<le> m)"
proof -
  from assms have pos: "0 < x" "\<bar>x\<bar> = x" "\<not> x < 0"
    by (simp_all add: less_le_trans [of 0 "2 ^ 53" x])
  from ulp_large [OF assms] have u: "2 \<le> ulp x" "2 ^ 52 * ulp x \<le> x" by simp_all
  then have upos: "0 < ulp x" by simp
  have "(2 ^ 52 * ulp x) div ulp x \<le> x div ulp x"
    using u(2) upos by (rule zdiv_mono1)
  with upos have q: "2 ^ 52 \<le> x div ulp x" by simp
  have "2 ^ 52 * 2 \<le> (x div ulp x) * ulp x"
    using q u(1) by (intro mult_mono) simp_all
  then have low: "2 ^ 53 \<le> (x div ulp x) * ulp x" by simp
  have "(x div ulp x) * ulp x \<le> (x div ulp x + 1) * ulp x"
    using upos by (simp add: distrib_right)
  with low have high: "2 ^ 53 \<le> (x div ulp x + 1) * ulp x" by linarith
  show ?thesis
    using low high pos by (simp add: roundDouble_def Let_def)
qed

lemma js_add_exact:
  "0 \<le> x + y \<Longrightarrow> x + y \<le> 2 ^ 53 \<Longrightarrow> js_add (Finite x) (Finite y) = Finite (x + y)"
  by (simp add: roundDouble_exact)

lemma sumDemands_from:
  assumes "\<forall>l\<in>set locs. 0 \<le> demand l" and "0 \<le> a"
    and "a + sum_list (map demand locs) \<le> 2 ^ 53"
  shows "foldl (\<lambda>sum loc. js_add sum (Finite (demand loc))) (Finite a) locs =
           Finite (a + sum_list (map demand locs))"
  using assms
proof (induction locs arbitrary: a)
  case Nil
  then show ?case by simp
next
  case (Cons l locs)
  have rest: "0 \<le> sum_list (map demand locs)"
    using Cons.prems(1) by (intro sum_list_nonneg) auto
  from Cons.prems have l: "0 \<le> demand l" by simp
  with Cons.prems rest have step: "js_add (Finite a) (Finite (demand l)) = Finite (a + demand l)"
    by (intro js_add_exact) simp_all
  have "foldl (\<lambda>sum loc. js_add sum (Finite (demand loc))) (Finite (a + demand l)) locs =
          Finite (a + demand l + sum_list (map demand locs))"
    using Cons.prems l by (intro Cons.IH) simp_all
  with step show ?case by (simp add: add.assoc)
qed

lemma sumDemands_exact:
  assumes "\<forall>l\<in>set locs. 0 \<le> demand l" and "sum_list (map demand locs) \<le> 2 ^ 53"
  shows "sumDemands locs = Finite (sum_list (map demand locs))"
  using sumDemands_from [OF assms(1), of 0] assms(2) by (simp add: sumDemands_def)

text \<open>
  The capacity check on exact sums: below \<open>2 ^ 53\<close> the check of the solver is the
  comparison of the exact sum with the capacity.
\<close>

lemma capacity_check_exact:
  assumes "0 \<le> s" and "0 \<le> d" and "s \<le> 2 ^ 53" and "cap < 2 ^ 53"
    and "\<not> js_gt (js_add (Finite s) (Finite d)) (Finite cap)"
  shows "s + d \<le> cap"
proof (cases "s + d \<le> 2 ^ 53")
  case True
  with assms(1,2) have "js_add (Finite s) (Finite d) = Finite (s + d)"
    by (intro js_add_exact) simp_all
  with assms(5) show ?thesis by simp
next
  case False
  then have "2 ^ 53 \<le> s + d" by simp
  from roundDouble_large [OF this] assms(4,5) have False
    by auto
  then show ?thesis ..
qed

section \<open>Properties of the search\<close>

subsection \<open>The loops as a fold over the feasible slots\<close>

lemma recordAll_Nil [simp]: "recordAll [] s = s"
  by (simp add: recordAll_def)

lemma recordAll_append: "recordAll (xs @ ys) s = recordAll ys (recordAll xs s)"
  by (simp add: recordAll_def)

lemma recordAll_single [simp]: "recordAll [(r, i, inc)] s = recordSlot r i inc s"
  by (simp add: recordAll_def)

lemma sansReason_update [simp]: "sansReason (route\<lparr>infeasibilityReason := x\<rparr>) = sansReason route"
  by (simp add: sansReason_def)

lemma sansReason_fields [simp]:
  "locations (sansReason route) = locations route"
  "totalTime (sansReason route) = totalTime route"
  "vehicleId (sansReason route) = vehicleId route"
  "feasible (sansReason route) = feasible route"
  "totalDistance (sansReason route) = totalDistance route"
  by (simp_all add: sansReason_def)

lemma checkSlot_sansReason:
  "checkSlot d cs tm c (sansReason route) i = checkSlot d cs tm c route i"
  unfolding checkSlot_def sansReason_fields by (rule refl)

lemma checkSlot_cong:
  "sansReason a = sansReason b \<Longrightarrow> checkSlot d cs tm c a i = checkSlot d cs tm c b i"
  by (metis checkSlot_sansReason)

lemma slotCands_cong:
  "sansReason a = sansReason b \<Longrightarrow> slotCands d cs tm c r a is = slotCands d cs tm c r b is"
  by (simp add: slotCands_def checkSlot_cong [of a b])

lemma slotCands_Cons:
  "slotCands d cs tm c r route (i # is) =
     slotCands d cs tm c r route [i] @ slotCands d cs tm c r route is"
  by (simp add: slotCands_def)

lemma trySlot_step:
  assumes "trySlot d cs tm c r i (route, s) = Inr (route', s')"
  shows "sansReason route' = sansReason route \<and>
         s' = recordAll (slotCands d cs tm c r route [i]) s"
  using assms
  by (auto simp: trySlot_def slotCands_def split: sum.splits slot.splits)

lemma slots_loop:
  "foldE (trySlot d cs tm c r) is (route, s) = Inr (route', s') \<Longrightarrow>
     sansReason route' = sansReason route \<and> s' = recordAll (slotCands d cs tm c r route is) s"
proof (induction "is" arbitrary: route s)
  case Nil
  then show ?case by (simp add: slotCands_def)
next
  case (Cons i "is")
  from Cons.prems obtain route1 s1 where
    step: "trySlot d cs tm c r i (route, s) = Inr (route1, s1)" and
    rest: "foldE (trySlot d cs tm c r) is (route1, s1) = Inr (route', s')"
    by (auto split: sum.splits)
  from trySlot_step [OF step] have
    a: "sansReason route1 = sansReason route" and
    b: "s1 = recordAll (slotCands d cs tm c r route [i]) s" by simp_all
  from Cons.IH [OF rest] have
    c: "sansReason route' = sansReason route1" and
    e: "s' = recordAll (slotCands d cs tm c r route1 is) s1" by simp_all
  have "slotCands d cs tm c r route1 is = slotCands d cs tm c r route is"
    using a by (rule slotCands_cong)
  with a b c e show ?case
    by (simp add: slotCands_Cons [of d cs tm c r route i "is"] recordAll_append)
qed

lemma tryRoute_step:
  assumes "tryRoute d cs vs tm c r (route, s) = Inr (route', s')"
  shows "sansReason route' = sansReason route \<and>
         s' = recordAll (routeCands d cs vs tm c r route) s"
proof (cases "find (\<lambda>v. id_veh v = vehicleId route) vs")
  case None
  with assms show ?thesis by (simp add: tryRoute_def)
next
  case (Some v)
  show ?thesis
  proof (cases "js_gt (js_add (routeDemand route) (Finite (demand c))) (Finite (capacity v))")
    case True
    with assms Some show ?thesis
      by (auto simp: tryRoute_def routeCands_def capacityOk_def)
  next
    case False
    with assms Some have
      "foldE (trySlot d cs tm c r) [0..<length (locations route)] (route, s) = Inr (route', s')"
      by (simp add: tryRoute_def)
    from slots_loop [OF this] False Some show ?thesis
      by (simp add: routeCands_def capacityOk_def)
  qed
qed

lemma searchRoutes_result:
  "searchRoutes d cs vs tm c r rts s = Inr (rts', s') \<Longrightarrow>
     map sansReason rts' = map sansReason rts \<and> s' = recordAll (allCands d cs vs tm c r rts) s"
proof (induction rts arbitrary: r s rts')
  case Nil
  then show ?case by simp
next
  case (Cons route rest)
  from Cons.prems obtain route1 s1 rest1 where
    step: "tryRoute d cs vs tm c r (route, s) = Inr (route1, s1)" and
    rest: "searchRoutes d cs vs tm c (Suc r) rest s1 = Inr (rest1, s')" and
    res: "rts' = route1 # rest1"
    by (auto split: sum.splits prod.splits)
  from tryRoute_step [OF step] Cons.IH [OF rest] res show ?case
    by (simp add: recordAll_append)
qed

lemma bestInv_init: "bestInv [] initSearch"
  by (simp add: bestInv_def initSearch_def)

subsection \<open>What the fold records\<close>

lemma num_lt_simps [simp]:
  "num_lt None b = False" "num_lt a None = False" "num_lt (Some x) (Some y) = (x < y)"
  by (simp_all add: num_lt_def split: option.splits)

lemma bestInv_step:
  assumes "bestInv cands s"
  shows "bestInv (cands @ [(r, i, inc)]) (recordSlot r i inc s)"
proof (cases inc)
  case None
  have "\<And>k. k < length cands \<Longrightarrow> (cands @ [(r, i, None)]) ! k = cands ! k"
    by (simp add: nth_append)
  with assms None show ?thesis
    unfolding bestInv_def recordSlot_def
    by (auto simp: nth_append) 
next
  case (Some v)
  show ?thesis
  proof (cases "v < bestIncrease s")
    case True
    have old: "\<And>x. x \<in> set cands \<Longrightarrow> \<not> num_lt (snd (snd x)) (Some v) \<and> snd (snd x) \<noteq> Some v"
    proof -
      fix x assume "x \<in> set cands"
      with assms have "\<not> num_lt (snd (snd x)) (Some (bestIncrease s))"
        by (simp add: bestInv_def)
      with True show "\<not> num_lt (snd (snd x)) (Some v) \<and> snd (snd x) \<noteq> Some v"
        by (cases "snd (snd x)") auto
    qed
    have "\<exists>k<length (cands @ [(r, i, inc)]). \<exists>r' i'.
            (cands @ [(r, i, inc)]) ! k = (r', i', Some v) \<and> int r = int r' \<and>
            int (i + 1) = int (Suc i') \<and>
            (\<forall>j<k. snd (snd ((cands @ [(r, i, inc)]) ! j)) \<noteq> Some v)"
      using old Some by (intro exI [of _ "length cands"]) (auto simp: nth_append)
    moreover have "bestIncrease s \<le> MAX_VALUE"
      using assms by (cases "bestRouteIndex s = - 1") (auto simp: bestInv_def)
    ultimately show ?thesis
      using True Some old unfolding bestInv_def recordSlot_def by auto
  next
    case False
    with assms Some show ?thesis
      unfolding bestInv_def recordSlot_def
      by (auto simp: nth_append)
  qed
qed

lemma bestInv_recordAll: "bestInv cands (recordAll cands initSearch)"
proof (induction cands rule: rev_induct)
  case Nil
  show ?case by (simp add: bestInv_init)
next
  case (snoc x xs)
  obtain r i inc where "x = (r, i, inc)" by (cases x) auto
  with snoc bestInv_step [of xs "recordAll xs initSearch" r i inc] show ?case
    by (simp add: recordAll_append)
qed

subsection \<open>The feasible slots and their order\<close>

lemma slotCands_mem:
  "(r', i, inc) \<in> set (slotCands d cs tm c r route is) \<longleftrightarrow>
     r' = r \<and> i \<in> set is \<and> checkSlot d cs tm c route i = Inr (Feasible inc)"
  by (auto simp: slotCands_def split: sum.splits slot.splits)

lemma routeCands_mem:
  "(r', i, inc) \<in> set (routeCands d cs vs tm c r route) \<longleftrightarrow>
     r' = r \<and> i < length (locations route) \<and> capacityOk vs c route \<and>
     checkSlot d cs tm c route i = Inr (Feasible inc)"
  by (auto simp: routeCands_def slotCands_mem)

lemma allCands_mem:
  "(r', i, inc) \<in> set (allCands d cs vs tm c r rts) \<longleftrightarrow>
     r \<le> r' \<and> feasibleSlot d cs vs tm rts c (r' - r) i inc"
proof (induction rts arbitrary: r)
  case Nil
  show ?case by (simp add: feasibleSlot_def)
next
  case (Cons route rest)
  show ?case
  proof (cases "r' = r")
    case True
    with Cons.IH [of "Suc r"] show ?thesis
      by (simp add: routeCands_mem feasibleSlot_def)
  next
    case False
    show ?thesis
    proof (cases "r < r'")
      case True
      then have "r' - r = Suc (r' - Suc r)" by simp
      with True show ?thesis
        by (simp add: Cons.IH routeCands_mem feasibleSlot_def)
    next
      case False
      with \<open>r' \<noteq> r\<close> show ?thesis
        by (simp add: Cons.IH routeCands_mem)
    qed
  qed
qed

lemma slotCands_sorted:
  "sorted_wrt (<) is \<Longrightarrow> sorted_wrt slotBefore (slotCands d cs tm c r route is)"
proof (induction "is")
  case Nil
  show ?case by (simp add: slotCands_def)
next
  case (Cons i "is")
  have "sorted_wrt slotBefore (slotCands d cs tm c r route [i])"
    by (simp add: slotCands_def split: sum.splits slot.splits)
  moreover have "\<forall>x\<in>set (slotCands d cs tm c r route [i]).
                 \<forall>y\<in>set (slotCands d cs tm c r route is). slotBefore x y"
    using Cons.prems by (auto simp: slotCands_mem slotBefore_def)
  ultimately show ?case
    using Cons by (simp add: slotCands_Cons [of d cs tm c r route i "is"] sorted_wrt_append)
qed

lemma allCands_sorted: "sorted_wrt slotBefore (allCands d cs vs tm c r rts)"
proof (induction rts arbitrary: r)
  case Nil
  show ?case by simp
next
  case (Cons route rest)
  have "sorted_wrt slotBefore (routeCands d cs vs tm c r route)"
    by (simp add: routeCands_def slotCands_sorted)
  moreover have "\<forall>x\<in>set (routeCands d cs vs tm c r route).
                 \<forall>y\<in>set (allCands d cs vs tm c (Suc r) rest). slotBefore x y"
    by (auto simp: routeCands_mem allCands_mem slotBefore_def)
  ultimately show ?case
    by (simp add: sorted_wrt_append Cons.IH)
qed

subsection \<open>The outcome of the search\<close>

lemma search_outcome:
  assumes "searchRoutes d cs vs tm c 0 rts initSearch = Inr (rts', s)"
  shows "map sansReason rts' = map sansReason rts"
    and "assignmentPossible s \<longleftrightarrow> (\<exists>r i inc. feasibleSlot d cs vs tm rts c r i inc)"
    and "\<And>r i inc. feasibleSlot d cs vs tm rts c r i inc \<Longrightarrow>
           \<not> num_lt inc (Some (bestIncrease s))"
    and "bestRouteIndex s = - 1 \<Longrightarrow> bestIncrease s = MAX_VALUE"
    and "bestRouteIndex s \<noteq> - 1 \<Longrightarrow> bestIncrease s < MAX_VALUE"
    and "bestRouteIndex s \<noteq> - 1 \<Longrightarrow>
           \<exists>r i. bestRouteIndex s = int r \<and> bestPosition s = int (Suc i) \<and>
                 feasibleSlot d cs vs tm rts c r i (Some (bestIncrease s)) \<and>
                 (\<forall>r' i'. feasibleSlot d cs vs tm rts c r' i' (Some (bestIncrease s)) \<longrightarrow>
                           r < r' \<or> (r = r' \<and> i \<le> i'))"
proof -
  let ?cands = "allCands d cs vs tm c 0 rts"
  from searchRoutes_result [OF assms] have
    frame: "map sansReason rts' = map sansReason rts" and s: "s = recordAll ?cands initSearch"
    by simp_all
  have inv: "bestInv ?cands s" unfolding s by (rule bestInv_recordAll)
  have mem: "\<And>r i inc. (r, i, inc) \<in> set ?cands \<longleftrightarrow> feasibleSlot d cs vs tm rts c r i inc"
    by (simp add: allCands_mem)
  show "map sansReason rts' = map sansReason rts" by (rule frame)
  show "assignmentPossible s \<longleftrightarrow> (\<exists>r i inc. feasibleSlot d cs vs tm rts c r i inc)"
  proof -
    have "?cands \<noteq> [] \<longleftrightarrow> (\<exists>x. x \<in> set ?cands)" by (cases ?cands) auto
    also have "\<dots> \<longleftrightarrow> (\<exists>r i inc. (r, i, inc) \<in> set ?cands)" by auto
    finally show ?thesis using inv mem by (simp add: bestInv_def)
  qed
  show "\<And>r i inc. feasibleSlot d cs vs tm rts c r i inc \<Longrightarrow>
           \<not> num_lt inc (Some (bestIncrease s))"
  proof -
    fix r i inc assume "feasibleSlot d cs vs tm rts c r i inc"
    then have "(r, i, inc) \<in> set ?cands" by (simp add: mem)
    with inv have "\<not> num_lt (snd (snd (r, i, inc))) (Some (bestIncrease s))"
      unfolding bestInv_def by blast
    then show "\<not> num_lt inc (Some (bestIncrease s))" by simp
  qed
  show "bestRouteIndex s = - 1 \<Longrightarrow> bestIncrease s = MAX_VALUE"
    using inv by (simp add: bestInv_def)
  show "bestRouteIndex s \<noteq> - 1 \<Longrightarrow> bestIncrease s < MAX_VALUE"
    using inv by (simp add: bestInv_def)
  show "\<exists>r i. bestRouteIndex s = int r \<and> bestPosition s = int (Suc i) \<and>
                 feasibleSlot d cs vs tm rts c r i (Some (bestIncrease s)) \<and>
                 (\<forall>r' i'. feasibleSlot d cs vs tm rts c r' i' (Some (bestIncrease s)) \<longrightarrow>
                           r < r' \<or> (r = r' \<and> i \<le> i'))"
    if "bestRouteIndex s \<noteq> - 1"
  proof -
    from inv that obtain k r i where
      k: "k < length ?cands" and at: "?cands ! k = (r, i, Some (bestIncrease s))" and
      ri: "bestRouteIndex s = int r" "bestPosition s = int (Suc i)" and
      first: "\<forall>j<k. snd (snd (?cands ! j)) \<noteq> Some (bestIncrease s)"
      unfolding bestInv_def by blast
    from k at have "(r, i, Some (bestIncrease s)) \<in> set ?cands"
      by (metis nth_mem)
    then have feas: "feasibleSlot d cs vs tm rts c r i (Some (bestIncrease s))"
      by (simp add: mem)
    have "r < r' \<or> (r = r' \<and> i \<le> i')"
      if "feasibleSlot d cs vs tm rts c r' i' (Some (bestIncrease s))" for r' i'
    proof -
      from that have "(r', i', Some (bestIncrease s)) \<in> set ?cands" by (simp add: mem)
      then obtain j where j: "j < length ?cands" "?cands ! j = (r', i', Some (bestIncrease s))"
        by (auto simp: in_set_conv_nth)
      with first have "\<not> j < k" by auto
      show ?thesis
      proof (cases "j = k")
        case True
        with j at show ?thesis by simp
      next
        case False
        with \<open>\<not> j < k\<close> have "k < j" by simp
        with allCands_sorted [of d cs vs tm c 0 rts] j(1)
        have "slotBefore (?cands ! k) (?cands ! j)"
          by (simp add: sorted_wrt_nth_less)
        with at j(2) show ?thesis by (auto simp: slotBefore_def)
      qed
    qed
    with ri feas show ?thesis by blast
  qed
qed

section \<open>Properties of the loop over the customers\<close>

subsection \<open>Loops that may throw\<close>

lemma foldE_append:
  "foldE f (xs @ ys) s = (case foldE f xs s of Inl e \<Rightarrow> Inl e | Inr s' \<Rightarrow> foldE f ys s')"
  by (induction xs arbitrary: s) (auto split: sum.splits)

lemma foldE_invariant:
  assumes "foldE f xs s = Inr s'" and "P s"
    and "\<And>x s s'. x \<in> set xs \<Longrightarrow> P s \<Longrightarrow> f x s = Inr s' \<Longrightarrow> P s'"
  shows "P s'"
  using assms
proof (induction xs arbitrary: s)
  case Nil
  then show ?case by simp
next
  case (Cons x xs)
  from Cons.prems(1) obtain s1 where s1: "f x s = Inr s1" "foldE f xs s1 = Inr s'"
    by (auto split: sum.splits)
  from Cons.prems(3) [OF _ Cons.prems(2) s1(1)] have s1P: "P s1" by simp
  show ?case
  proof (rule Cons.IH [OF s1(2) s1P])
    fix y t t'
    assume "y \<in> set xs" "P t" "f y t = Inr t'"
    with Cons.prems(3) [of y t t'] show "P t'" by simp
  qed
qed

subsection \<open>One customer\<close>

lemma sansReason_insertCustomer:
  "sansReason (insertCustomer c p inc route) = insertCustomer c p inc (sansReason route)"
  by (simp add: insertCustomer_def sansReason_def Let_def)

lemma sansReason_nth:
  assumes "map sansReason xs = map sansReason ys" and "r < length ys"
  shows "sansReason (xs ! r) = sansReason (ys ! r)"
proof -
  from assms have "length xs = length ys" by (metis length_map)
  with assms show ?thesis by (metis nth_map)
qed

lemma processCustomer_spec:
  assumes "processCustomer d cs vs tm c st = Inr st'"
  shows "(\<exists>r i inc.
            feasibleSlot d cs vs tm (routes_st st) c r i (Some inc) \<and> inc < MAX_VALUE \<and>
            (\<forall>r' i' inc'. feasibleSlot d cs vs tm (routes_st st) c r' i' inc' \<longrightarrow>
                           \<not> num_lt inc' (Some inc)) \<and>
            (\<forall>r' i'. feasibleSlot d cs vs tm (routes_st st) c r' i' (Some inc) \<longrightarrow>
                      r < r' \<or> (r = r' \<and> i \<le> i')) \<and>
            map sansReason (routes_st st') =
              (map sansReason (routes_st st))
                [r := sansReason (insertCustomer c (Suc i) inc (routes_st st ! r))] \<and>
            unassigned_st st' = unassigned_st st \<and> reasons_st st' = reasons_st st)
       \<or> ((\<forall>r i inc. feasibleSlot d cs vs tm (routes_st st) c r i inc \<longrightarrow>
                       \<not> num_lt inc (Some MAX_VALUE)) \<and>
           map sansReason (routes_st st') = map sansReason (routes_st st) \<and>
           unassigned_st st' = unassigned_st st @ [c] \<and>
           reasons_st st' =
             (if \<exists>r i inc. feasibleSlot d cs vs tm (routes_st st) c r i inc
              then reasons_st st else reasons_st st @ [msgUnassigned c]))"
proof -
  from assms obtain rts s where
    search: "searchRoutes d cs vs tm c 0 (routes_st st) initSearch = Inr (rts, s)"
    by (auto simp: processCustomer_def split: sum.splits)
  note out = search_outcome [OF search]
  show ?thesis
  proof (cases "bestRouteIndex s = - 1")
    case True
    with assms search have st': "st' = st\<lparr>routes_st := rts,
                    unassigned_st := unassigned_st st @ [c],
                    reasons_st := (if \<not> assignmentPossible s
                                   then reasons_st st @ [msgUnassigned c]
                                   else reasons_st st)\<rparr>"
      by (simp add: processCustomer_def)
    from out(4) [OF True] out(3) have
      "\<forall>r i inc. feasibleSlot d cs vs tm (routes_st st) c r i inc \<longrightarrow>
                       \<not> num_lt inc (Some MAX_VALUE)"
      by auto
    with st' out(1) out(2) show ?thesis by auto
  next
    case False
    from out(6) [OF False] obtain r i where
      ri: "bestRouteIndex s = int r" "bestPosition s = int (Suc i)" and
      feas: "feasibleSlot d cs vs tm (routes_st st) c r i (Some (bestIncrease s))" and
      first: "\<forall>r' i'. feasibleSlot d cs vs tm (routes_st st) c r' i' (Some (bestIncrease s)) \<longrightarrow>
                           r < r' \<or> (r = r' \<and> i \<le> i')"
      by blast
    have "nat (int (Suc i)) = Suc i" by simp
    with assms search False ri have st':
      "st' = st\<lparr>routes_st := rts[r := insertCustomer c (Suc i) (bestIncrease s) (rts ! r)]\<rparr>"
      unfolding processCustomer_def by auto
    from feas have r: "r < length (routes_st st)" by (simp add: feasibleSlot_def)
    have "sansReason (rts ! r) = sansReason (routes_st st ! r)"
      using out(1) r by (rule sansReason_nth)
    then have "sansReason (insertCustomer c (Suc i) (bestIncrease s) (rts ! r)) =
               sansReason (insertCustomer c (Suc i) (bestIncrease s) (routes_st st ! r))"
      by (simp add: sansReason_insertCustomer)
    with st' out(1) have
      "map sansReason (routes_st st') =
         (map sansReason (routes_st st))
           [r := sansReason (insertCustomer c (Suc i) (bestIncrease s) (routes_st st ! r))]"
      by (simp add: map_update)
    moreover from st' have "unassigned_st st' = unassigned_st st \<and> reasons_st st' = reasons_st st"
      by simp
    moreover note feas first out(5) [OF False] out(3)
    ultimately show ?thesis by blast
  qed
qed

subsection \<open>Invariants of the routes\<close>

lemma processCustomer_pointwise:
  assumes step: "processCustomer d cs vs tm c st = Inr st'"
    and P: "\<forall>route\<in>set (routes_st st). P route"
    and reason: "\<And>route. P (sansReason route) = P route"
    and ins: "\<And>route i inc. P route \<Longrightarrow> i < length (locations route) \<Longrightarrow>
                capacityOk vs c route \<Longrightarrow> P (insertCustomer c (Suc i) inc route)"
  shows "\<forall>route\<in>set (routes_st st'). P route"
proof -
  have old: "\<forall>x\<in>set (map sansReason (routes_st st)). P x"
    using P reason by simp
  have "\<forall>x\<in>set (map sansReason (routes_st st')). P x"
    using processCustomer_spec [OF step]
  proof (elim disjE exE conjE)
    fix r i inc
    assume feas: "feasibleSlot d cs vs tm (routes_st st) c r i (Some inc)"
      and upd: "map sansReason (routes_st st') =
              (map sansReason (routes_st st))
                [r := sansReason (insertCustomer c (Suc i) inc (routes_st st ! r))]"
    from feas have "r < length (routes_st st)" "i < length (locations (routes_st st ! r))"
      "capacityOk vs c (routes_st st ! r)" by (simp_all add: feasibleSlot_def)
    with P have "P (insertCustomer c (Suc i) inc (routes_st st ! r))"
      by (intro ins) auto
    then have "P (sansReason (insertCustomer c (Suc i) inc (routes_st st ! r)))"
      by (simp add: reason)
    with old upd show ?thesis
      by (metis insertE set_update_subset_insert subsetD)
  next
    assume "map sansReason (routes_st st') = map sansReason (routes_st st)"
    with old show ?thesis by simp
  qed
  then show ?thesis using reason by simp
qed

lemma processAll_pointwise:
  assumes run: "processAll d cs vs tm xs st = Inr st'"
    and P: "\<forall>route\<in>set (routes_st st). P route"
    and reason: "\<And>route. P (sansReason route) = P route"
    and ins: "\<And>c route i inc. c \<in> set xs \<Longrightarrow> P route \<Longrightarrow> i < length (locations route) \<Longrightarrow>
                capacityOk vs c route \<Longrightarrow> P (insertCustomer c (Suc i) inc route)"
  shows "\<forall>route\<in>set (routes_st st'). P route"
proof (rule foldE_invariant [where P = "\<lambda>st. \<forall>route\<in>set (routes_st st). P route"])
  show "foldE (processCustomer d cs vs tm) xs st = Inr st'"
    using run by (simp add: processAll_def)
  show "\<forall>route\<in>set (routes_st st). P route" by (rule P)
  show "\<forall>route\<in>set (routes_st s'). P route"
    if "x \<in> set xs" "\<forall>route\<in>set (routes_st s). P route"
       "processCustomer d cs vs tm x s = Inr s'" for x s s'
    using that(3) that(2) reason ins [OF that(1)] by (rule processCustomer_pointwise)
qed

subsection \<open>Evaluation on the sample inputs\<close>

lemmas solver_eval =
  solveVRPTW_def processAll_def sortedCustomers_def initSolver_def initRoute_def
  processCustomer_def insertCustomer_def tryRoute_def trySlot_def checkSlot_def recordSlot_def
  routeDemand_def sumDemands_def roundDouble_def ulp_small ulp_step matrixRow_def rowEntry_def num_add_def num_sub_def splice_at_def
  initSearch_def finish_def closeRoute_def Let_def MAX_VALUE_def

lemmas example_defs =
  exLocation_def exDepot_def exC_def exA_def exB_def exCustomers_def exVehicle_def
  exMatrix_def exRoute_def exSolution_def

lemma example_empty_run: "solveVRPTW exDepot [] [exNegVehicle] [[0]] = Inr exEmptySolution"
  by (simp add: solver_eval example_defs exNegVehicle_def exEmptyRoute_def exEmptySolution_def)

lemma example_run: "solveVRPTW exDepot exCustomers [exVehicle] exMatrix = Inr exSolution"
  by (simp add: solver_eval example_defs)

subsection \<open>Fields after insertion, closing and the final aggregation\<close>

lemma closeRoute_feasible [simp]: "feasible (closeRoute d route) = feasible route"
  by (simp add: closeRoute_def)

lemma insertCustomer_fields [simp]:
  "feasible (insertCustomer c p inc route) = feasible route"
  "vehicleId (insertCustomer c p inc route) = vehicleId route"
  "locations (insertCustomer c p inc route) = splice_at p c (locations route)"
  "totalTime (insertCustomer c p inc route) = totalTime route + inc"
  "totalDistance (insertCustomer c p inc route) = routeDistance (splice_at p c (locations route))"
  by (simp_all add: insertCustomer_def Let_def)

lemma solveVRPTW_run:
  assumes "solveVRPTW d cs vs tm = Inr sol"
  obtains st where "processAll d cs vs tm (sortedCustomers cs) (initSolver d vs) = Inr st"
    and "sol = finish d st"
  using assms by (auto simp: solveVRPTW_def split: sum.splits)

lemma finish_fields [simp]:
  "routes (finish d st) = map (closeRoute d) (routes_st st)"
  "unassignedLocations (finish d st) = unassigned_st st"
  "infeasibilityReasons (finish d st) = reasons_st st"
  "feasible_sol (finish d st) =
     (unassigned_st st = [] \<and> list_all feasible (map (closeRoute d) (routes_st st)))"
  by (simp_all add: finish_def Let_def)

subsection \<open>Sums, splices and the shape of the routes\<close>

lemma foldl_add_sum_list:
  fixes a :: "'a::comm_monoid_add"
  shows "foldl (\<lambda>s x. s + f x) a xs = a + sum_list (map f xs)"
  by (induction xs arbitrary: a) (simp_all add: add.assoc)

lemma routeDistance_sum:
  "routeDistance locs =
     (\<Sum>i\<leftarrow>[0..<length locs - 1]. distanceBetween (locs ! i) (locs ! (i + 1)))"
  by (simp add: routeDistance_def foldl_add_sum_list)

lemma closeRoute_distance:
  "totalDistance route = routeDistance (locations route) \<Longrightarrow>
   totalDistance (closeRoute d route) = routeDistance (locations (closeRoute d route))"
  by (simp add: closeRoute_def)

lemma set_sortedCustomers [simp]: "set (sortedCustomers cs) = set cs"
  by (simp add: sortedCustomers_def)

lemma mset_sortedCustomers [simp]: "mset (sortedCustomers cs) = mset cs"
  by (simp add: sortedCustomers_def)

lemma splice_at_Suc: "splice_at (Suc i) c (x # xs) = x # splice_at i c xs"
  by (simp add: splice_at_def)

lemma set_splice_at: "set (splice_at i c xs) = insert c (set xs)"
proof -
  have "set (take i xs) \<union> set (drop i xs) = set xs"
    by (metis append_take_drop_id set_append)
  then show ?thesis by (auto simp: splice_at_def)
qed

lemma mset_splice_at: "mset (splice_at i c xs) = add_mset c (mset xs)"
proof -
  have "mset (take i xs) + mset (drop i xs) = mset xs"
    by (metis append_take_drop_id mset_append)
  then show ?thesis by (simp add: splice_at_def)
qed

lemma sum_splice_at:
  fixes f :: "'a \<Rightarrow> int"
  shows "sum_list (map f (splice_at i c xs)) = sum_list (map f xs) + f c"
proof -
  have "sum_list (map f (take i xs)) + sum_list (map f (drop i xs)) = sum_list (map f xs)"
    by (metis append_take_drop_id map_append sum_list_append)
  then show ?thesis by (simp add: splice_at_def)
qed

text \<open>During the construction every route is the depot followed by customers.\<close>

lemma routes_start_at_depot:
  assumes "processAll d cs vs tm xs (initSolver d vs) = Inr st"
  shows "\<forall>route\<in>set (routes_st st). \<exists>cs'. set cs' \<subseteq> set xs \<and> locations route = d # cs'"
  using assms
proof (rule processAll_pointwise)
  show "\<forall>route\<in>set (routes_st (initSolver d vs)).
          \<exists>cs'. set cs' \<subseteq> set xs \<and> locations route = d # cs'"
    by (simp add: initSolver_def initRoute_def)
next
  fix c :: location and route :: route and i :: nat and inc :: int
  assume c: "c \<in> set xs" and "\<exists>cs'. set cs' \<subseteq> set xs \<and> locations route = d # cs'"
  then obtain cs' where cs': "set cs' \<subseteq> set xs" "locations route = d # cs'" by blast
  with c have "set (splice_at i c cs') \<subseteq> set xs \<and>
        locations (insertCustomer c (Suc i) inc route) = d # splice_at i c cs'"
    by (simp add: splice_at_Suc set_splice_at)
  then show "\<exists>cs'. set cs' \<subseteq> set xs \<and> locations (insertCustomer c (Suc i) inc route) = d # cs'"
    by blast
qed simp

lemma closeRoute_locations':
  assumes "locations route = d # cs'"
  shows "locations (closeRoute d route) =
     d # cs' @ (if cs' = [] \<or> id_loc (last cs') = id_loc d then [] else [d])"
  using assms by (simp add: closeRoute_def)

subsection \<open>Vehicles and customers are accounted for\<close>

lemma map_vehicleId_sansReason:
  "map vehicleId (map sansReason rts) = map vehicleId rts"
  by simp

lemma processCustomer_vehicleIds:
  assumes "processCustomer d cs vs tm c st = Inr st'"
  shows "map vehicleId (routes_st st') = map vehicleId (routes_st st)"
proof -
  have "map vehicleId (map sansReason (routes_st st')) =
        map vehicleId (map sansReason (routes_st st))"
    using processCustomer_spec [OF assms]
  proof (elim disjE exE conjE)
    fix r i inc
    assume feas: "feasibleSlot d cs vs tm (routes_st st) c r i (Some inc)"
      and upd: "map sansReason (routes_st st') =
              (map sansReason (routes_st st))
                [r := sansReason (insertCustomer c (Suc i) inc (routes_st st ! r))]"
    from feas have r: "r < length (routes_st st)" by (simp add: feasibleSlot_def)
    have "map vehicleId (map sansReason (routes_st st')) =
          (map vehicleId (map sansReason (routes_st st)))[r := vehicleId (routes_st st ! r)]"
      unfolding upd by (simp add: map_update)
    also have "\<dots> = map vehicleId (map sansReason (routes_st st))"
      using r by (simp add: list_update_same_conv)
    finally show ?thesis .
  next
    assume "map sansReason (routes_st st') = map sansReason (routes_st st)"
    then show ?thesis by simp
  qed
  then show ?thesis unfolding map_vehicleId_sansReason .
qed

lemma processAll_vehicleIds:
  assumes "processAll d cs vs tm xs st = Inr st'"
  shows "map vehicleId (routes_st st') = map vehicleId (routes_st st)"
proof (rule foldE_invariant
         [where P = "\<lambda>s. map vehicleId (routes_st s) = map vehicleId (routes_st st)"])
  show "foldE (processCustomer d cs vs tm) xs st = Inr st'"
    using assms by (simp add: processAll_def)
qed (simp_all add: processCustomer_vehicleIds)

lemma closeRoute_vehicleId [simp]: "vehicleId (closeRoute d route) = vehicleId route"
  by (simp add: closeRoute_def)

text \<open>The customers placed on the routes during the construction: all but the leading depot.\<close>

lemma placed_update:
  "r < length xs \<Longrightarrow>
     mset (concat (map f (xs[r := y]))) + mset (f (xs ! r)) = mset (concat (map f xs)) + mset (f y)"
proof (induction xs arbitrary: r)
  case Nil
  then show ?case by simp
next
  case (Cons x xs)
  then show ?case by (cases r) auto
qed

lemma placed_sansReason:
  "concat (map (\<lambda>route. tl (locations route)) (map sansReason rts)) =
   concat (map (\<lambda>route. tl (locations route)) rts)"
  by (simp add: comp_def)

lemma processCustomer_partition:
  assumes "processCustomer d cs vs tm c st = Inr st'"
  shows "mset (concat (map (\<lambda>route. tl (locations route)) (routes_st st'))) +
           mset (unassigned_st st') =
         add_mset c (mset (concat (map (\<lambda>route. tl (locations route)) (routes_st st))) +
           mset (unassigned_st st))"
  using processCustomer_spec [OF assms]
proof (elim disjE exE conjE)
  fix r i inc
  assume feas: "feasibleSlot d cs vs tm (routes_st st) c r i (Some inc)"
    and upd: "map sansReason (routes_st st') =
            (map sansReason (routes_st st))
              [r := sansReason (insertCustomer c (Suc i) inc (routes_st st ! r))]"
    and un: "unassigned_st st' = unassigned_st st"
  let ?f = "\<lambda>route. tl (locations route)"
  from feas have r: "r < length (routes_st st)" and i: "i < length (locations (routes_st st ! r))"
    by (simp_all add: feasibleSlot_def)
  from i obtain a t where at: "locations (routes_st st ! r) = a # t"
    by (cases "locations (routes_st st ! r)") auto
  have new: "mset (?f (sansReason (insertCustomer c (Suc i) inc (routes_st st ! r)))) =
             add_mset c (mset (?f (routes_st st ! r)))"
    by (simp add: at splice_at_Suc mset_splice_at)
  have "mset (concat (map ?f (routes_st st'))) + mset (?f (routes_st st ! r)) =
        mset (concat (map ?f (map sansReason (routes_st st')))) +
          mset (?f (map sansReason (routes_st st) ! r))"
    using r by (simp add: placed_sansReason del: map_map)
  also have "\<dots> = mset (concat (map ?f (map sansReason (routes_st st)))) +
          mset (?f (sansReason (insertCustomer c (Suc i) inc (routes_st st ! r))))"
    unfolding upd using r by (intro placed_update) simp
  also have "\<dots> = add_mset c (mset (concat (map ?f (routes_st st)))) + mset (?f (routes_st st ! r))"
    unfolding new by (simp add: placed_sansReason del: map_map)
  finally have "mset (concat (map ?f (routes_st st'))) =
                add_mset c (mset (concat (map ?f (routes_st st))))"
    by simp
  with un show ?thesis by simp
next
  assume same: "map sansReason (routes_st st') = map sansReason (routes_st st)"
    and un: "unassigned_st st' = unassigned_st st @ [c]"
  have "concat (map (\<lambda>route. tl (locations route)) (routes_st st')) =
        concat (map (\<lambda>route. tl (locations route)) (routes_st st))"
    using same placed_sansReason by metis
  with un show ?thesis by simp
qed

lemma processAll_partition:
  "processAll d cs vs tm xs st = Inr st' \<Longrightarrow>
     mset (concat (map (\<lambda>route. tl (locations route)) (routes_st st'))) +
       mset (unassigned_st st') =
     mset xs + (mset (concat (map (\<lambda>route. tl (locations route)) (routes_st st))) +
       mset (unassigned_st st))"
proof (induction xs arbitrary: st)
  case Nil
  then show ?case by (simp add: processAll_def)
next
  case (Cons x xs)
  from Cons.prems obtain st1 where
    step: "processCustomer d cs vs tm x st = Inr st1" and
    rest: "processAll d cs vs tm xs st1 = Inr st'"
    by (auto simp: processAll_def split: sum.splits)
  from Cons.IH [OF rest] processCustomer_partition [OF step] show ?case by simp
qed

subsection \<open>No exception\<close>

lemma findIndex_less: "findIndex p xs = Some k \<Longrightarrow> k < length xs"
  by (induction xs arbitrary: k) (auto split: if_splits option.splits)

lemma checkSlot_total:
  assumes "length cs < length tm"
  shows "\<exists>x. checkSlot d cs tm c route i = Inr x"
proof -
  have row: "\<And>p k. findIndex p (cs @ [d]) = Some k \<Longrightarrow> matrixRow tm k = Inr (tm ! k)"
    using assms by (auto simp: matrixRow_def dest: findIndex_less)
  show ?thesis
    unfolding checkSlot_def Let_def
    by (auto split: option.splits simp: row)
qed

lemma trySlot_total:
  assumes "length cs < length tm"
  shows "\<exists>y. trySlot d cs tm c r i rs = Inr y"
proof -
  obtain route s where rs: "rs = (route, s)" by (cases rs)
  from checkSlot_total [OF assms] obtain x where "checkSlot d cs tm c route i = Inr x"
    by blast
  with rs show ?thesis
    by (cases x) (simp_all add: trySlot_def)
qed

lemma foldE_always:
  assumes "\<And>x s. \<exists>s'. f x s = Inr s'"
  shows "\<exists>s'. foldE f xs s = Inr s'"
proof (induction xs arbitrary: s)
  case Nil
  show ?case by simp
next
  case (Cons x xs)
  from assms obtain s1 where "f x s = Inr s1" by blast
  with Cons.IH [of s1] show ?case by simp
qed

lemma tryRoute_total:
  assumes "length cs < length tm"
    and "find (\<lambda>v. id_veh v = vehicleId route) vs \<noteq> None"
  shows "\<exists>y. tryRoute d cs vs tm c r (route, s) = Inr y"
proof -
  from assms(2) obtain v where v: "find (\<lambda>v. id_veh v = vehicleId route) vs = Some v"
    by blast
  have "\<exists>y. foldE (trySlot d cs tm c r) [0..<length (locations route)] (route, s) = Inr y"
    by (rule foldE_always) (rule trySlot_total [OF assms(1)])
  with v show ?thesis by (simp add: tryRoute_def)
qed

lemma searchRoutes_total:
  assumes "length cs < length tm"
    and "\<forall>route\<in>set rts. find (\<lambda>v. id_veh v = vehicleId route) vs \<noteq> None"
  shows "\<exists>y. searchRoutes d cs vs tm c r rts s = Inr y"
  using assms(2)
proof (induction rts arbitrary: r s)
  case Nil
  show ?case by simp
next
  case (Cons route rest)
  from tryRoute_total [OF assms(1), of route vs d c r s] Cons.prems
  obtain route1 s1 where "tryRoute d cs vs tm c r (route, s) = Inr (route1, s1)" by auto
  moreover from Cons.IH [of "Suc r" s1] Cons.prems
  obtain rest1 s2 where "searchRoutes d cs vs tm c (Suc r) rest s1 = Inr (rest1, s2)" by auto
  ultimately show ?case by simp
qed

lemma processCustomer_total:
  assumes "length cs < length tm"
    and "\<forall>route\<in>set (routes_st st). find (\<lambda>v. id_veh v = vehicleId route) vs \<noteq> None"
  shows "\<exists>st'. processCustomer d cs vs tm c st = Inr st'"
proof -
  from searchRoutes_total [OF assms, of d c 0 initSearch] obtain rts s where
    "searchRoutes d cs vs tm c 0 (routes_st st) initSearch = Inr (rts, s)" by auto
  then show ?thesis by (simp add: processCustomer_def)
qed

lemma vehicle_found_invariant:
  assumes "processAll d cs vs tm xs (initSolver d vs) = Inr st"
  shows "\<forall>route\<in>set (routes_st st). find (\<lambda>v. id_veh v = vehicleId route) vs \<noteq> None"
proof -
  have "set (map vehicleId (routes_st st)) = set (map id_veh vs)"
    using processAll_vehicleIds [OF assms] by (simp add: initSolver_def initRoute_def comp_def)
  then have ids: "\<forall>route\<in>set (routes_st st). vehicleId route \<in> id_veh ` set vs"
    by auto
  show ?thesis
  proof
    fix route assume "route \<in> set (routes_st st)"
    with ids obtain v where "v \<in> set vs" "id_veh v = vehicleId route" by force
    then show "find (\<lambda>v. id_veh v = vehicleId route) vs \<noteq> None"
      unfolding find_None_iff by blast
  qed
qed

lemma processAll_snoc:
  "processAll d cs vs tm (xs @ [c]) st =
     (case processAll d cs vs tm xs st of
        Inl e \<Rightarrow> Inl e
      | Inr st1 \<Rightarrow> processCustomer d cs vs tm c st1)"
  by (simp add: processAll_def foldE_append split: sum.splits)

lemma processAll_total:
  assumes "length cs < length tm"
  shows "\<exists>st. processAll d cs vs tm xs (initSolver d vs) = Inr st"
proof (induction xs rule: rev_induct)
  case Nil
  show ?case by (simp add: processAll_def)
next
  case (snoc c xs)
  then obtain st1 where st1: "processAll d cs vs tm xs (initSolver d vs) = Inr st1" by blast
  from processCustomer_total [OF assms vehicle_found_invariant [OF st1]]
  obtain st' where "processCustomer d cs vs tm c st1 = Inr st'" by blast
  with st1 show ?case by (simp add: processAll_snoc)
qed

subsection \<open>The distance is symmetric\<close>

lemma calculateDistance_sym:
  "calculateDistance lat1 lon1 lat2 lon2 = calculateDistance lat2 lon2 lat1 lon1"
proof -
  have neg: "\<And>x y :: real. ((x - y) * pi) / 180 / 2 = - (((y - x) * pi) / 180 / 2)"
    by (simp add: field_simps)
  have sq: "\<And>x y :: real. sin (((x - y) * pi) / 180 / 2) * sin (((x - y) * pi) / 180 / 2) =
                          sin (((y - x) * pi) / 180 / 2) * sin (((y - x) * pi) / 180 / 2)"
  proof -
    fix x y :: real
    show "sin (((x - y) * pi) / 180 / 2) * sin (((x - y) * pi) / 180 / 2) =
          sin (((y - x) * pi) / 180 / 2) * sin (((y - x) * pi) / 180 / 2)"
      unfolding neg [of x y] sin_minus by simp
  qed
  have "sin (((lat2 - lat1) * pi) / 180 / 2) * sin (((lat2 - lat1) * pi) / 180 / 2) +
          cos ((lat1 * pi) / 180) * cos ((lat2 * pi) / 180) *
            sin (((lon2 - lon1) * pi) / 180 / 2) * sin (((lon2 - lon1) * pi) / 180 / 2) =
        sin (((lat1 - lat2) * pi) / 180 / 2) * sin (((lat1 - lat2) * pi) / 180 / 2) +
          cos ((lat2 * pi) / 180) * cos ((lat1 * pi) / 180) *
            sin (((lon1 - lon2) * pi) / 180 / 2) * sin (((lon1 - lon2) * pi) / 180 / 2)"
    using sq [of lat2 lat1] sq [of lon2 lon1] by (simp add: mult.assoc mult.commute)
  then show ?thesis
    unfolding calculateDistance_def Let_def by (simp only:)
qed

lemma distanceBetween_sym: "distanceBetween a b = distanceBetween b a"
  unfolding distanceBetween_def by (rule calculateDistance_sym)

lemma generateTimeMatrix_entry:
  assumes "i < length locs" and "j < length locs"
  shows "generateTimeMatrix locs ! i ! j =
           (if i = j then 0
            else Math_round ((distanceBetween (locs ! i) (locs ! j) / 50) * 60))"
  using assms by (simp add: generateTimeMatrix_def)

subsection \<open>Steps on the sample inputs, and the cost of a feasible slot\<close>

lemma example_step1:
  "processCustomer exDepot exCustomers [exVehicle] exMatrix exC exState0 = Inr exState1"
  by (simp add: solver_eval example_defs exState0_def exState1_def)

lemma example_step2:
  "processCustomer exDepot exCustomers [exVehicle] exMatrix exA exState1 = Inr exState2"
  by (simp add: solver_eval example_defs exState1_def exState2_def msgLate_def)

lemma example_step3:
  "processCustomer exDepot exCustomers [exVehicle] exMatrix exB exState2 = Inr exState3"
  by (simp add: solver_eval example_defs exState2_def exState3_def msgLate_def)

lemma example_huge_run:
  "solveVRPTW exDepot [exHuge] [exVehicle] exHugeMatrix = Inr exHugeSolution"
  by (simp add: solver_eval example_defs exHuge_def exHugeMatrix_def exHugeSolution_def
      exEmptyRoute_def)

lemma checkSlot_cost:
  assumes "checkSlot d cs tm c route i = Inr (Feasible inc)"
  shows "\<exists>p k n.
           findIndex (\<lambda>l. id_loc l = id_loc (locations route ! i)) (cs @ [d]) = Some p \<and>
           findIndex (\<lambda>l. id_loc l = id_loc c) (cs @ [d]) = Some k \<and>
           findIndex (\<lambda>l. id_loc l =
                        id_loc (if i + 1 < length (locations route)
                                then locations route ! (i + 1) else d)) (cs @ [d]) = Some n \<and>
           p < length tm \<and> k < length tm \<and>
           inc = num_sub (num_add (rowEntry (tm ! p) k) (rowEntry (tm ! k) n))
                         (rowEntry (tm ! p) n)"
  using assms unfolding checkSlot_def Let_def matrixRow_def
  by (auto split: option.splits sum.splits if_splits)


subsection \<open>The history of the unassigned customers\<close>

lemma unassigned_history:
  "processAll d cs vs tm xs st0 = Inr st' \<Longrightarrow>
     \<forall>c\<in>set (unassigned_st st').
       c \<in> set (unassigned_st st0) \<or>
       (\<exists>k<length xs. xs ! k = c \<and>
          (\<exists>st. processAll d cs vs tm (take k xs) st0 = Inr st \<and>
                (\<forall>r i inc. feasibleSlot d cs vs tm (routes_st st) c r i inc \<longrightarrow>
                             \<not> num_lt inc (Some MAX_VALUE))))"
proof (induction xs arbitrary: st' rule: rev_induct)
  case Nil
  then show ?case by (simp add: processAll_def)
next
  case (snoc x xs)
  from snoc.prems obtain st1 where
    run: "processAll d cs vs tm xs st0 = Inr st1" and
    step: "processCustomer d cs vs tm x st1 = Inr st'"
    by (auto simp: processAll_snoc split: sum.splits)
  show ?case
  proof
    fix c assume c: "c \<in> set (unassigned_st st')"
    let ?goal = "\<lambda>ys. c \<in> set (unassigned_st st0) \<or>
       (\<exists>k<length ys. ys ! k = c \<and>
          (\<exists>st. processAll d cs vs tm (take k ys) st0 = Inr st \<and>
                (\<forall>r i inc. feasibleSlot d cs vs tm (routes_st st) c r i inc \<longrightarrow>
                             \<not> num_lt inc (Some MAX_VALUE))))"
    have old: "?goal (xs @ [x])" if "c \<in> set (unassigned_st st1)"
    proof -
      from snoc.IH [OF run] that have "?goal xs" by blast
      then show ?thesis
      proof
        assume "c \<in> set (unassigned_st st0)"
        then show ?thesis by blast
      next
        assume "\<exists>k<length xs. xs ! k = c \<and>
          (\<exists>st. processAll d cs vs tm (take k xs) st0 = Inr st \<and>
                (\<forall>r i inc. feasibleSlot d cs vs tm (routes_st st) c r i inc \<longrightarrow>
                             \<not> num_lt inc (Some MAX_VALUE)))"
        then obtain k st where k: "k < length xs" "xs ! k = c"
          "processAll d cs vs tm (take k xs) st0 = Inr st"
          "\<forall>r i inc. feasibleSlot d cs vs tm (routes_st st) c r i inc \<longrightarrow>
                             \<not> num_lt inc (Some MAX_VALUE)" by blast
        from k(1) have "k < length (xs @ [x])" "(xs @ [x]) ! k = xs ! k"
          "take k (xs @ [x]) = take k xs"
          by (simp_all add: nth_append)
        with k show ?thesis by metis
      qed
    qed
    from processCustomer_spec [OF step] show "?goal (xs @ [x])"
    proof (elim disjE exE conjE)
      fix r i inc
      assume "unassigned_st st' = unassigned_st st1"
      with c old show ?thesis by simp
    next
      assume none: "\<forall>r i inc. feasibleSlot d cs vs tm (routes_st st1) x r i inc \<longrightarrow>
                       \<not> num_lt inc (Some MAX_VALUE)"
        and un: "unassigned_st st' = unassigned_st st1 @ [x]"
      show ?thesis
      proof (cases "c \<in> set (unassigned_st st1)")
        case True
        then show ?thesis by (rule old)
      next
        case False
        with c un have "c = x" by simp
        moreover have "length xs < length (xs @ [x])" "(xs @ [x]) ! length xs = x"
          "take (length xs) (xs @ [x]) = xs" by simp_all
        ultimately show ?thesis using run none by metis
      qed
    qed
  qed
qed

lemma feasible_cost_bounded:
  assumes wf: "wellFormedMatrix cs tm"
    and chk: "checkSlot d cs tm c route i = Inr (Feasible inc)"
  shows "num_lt inc (Some MAX_VALUE)"
proof -
  from checkSlot_cost [OF chk] obtain p k n where
    p: "findIndex (\<lambda>l. id_loc l = id_loc (locations route ! i)) (cs @ [d]) = Some p" and
    k: "findIndex (\<lambda>l. id_loc l = id_loc c) (cs @ [d]) = Some k" and
    n: "findIndex (\<lambda>l. id_loc l =
                        id_loc (if i + 1 < length (locations route)
                                then locations route ! (i + 1) else d)) (cs @ [d]) = Some n" and
    inc: "inc = num_sub (num_add (rowEntry (tm ! p) k) (rowEntry (tm ! k) n))
                         (rowEntry (tm ! p) n)"
    by blast
  from p k n have lt: "p < length cs + 1" "k < length cs + 1" "n < length cs + 1"
    using findIndex_less by fastforce+
  have entry: "rowEntry (tm ! a) b = Some (tm ! a ! b) \<and> 0 \<le> tm ! a ! b \<and> 2 * (tm ! a ! b) < MAX_VALUE"
    if "a < length cs + 1" "b < length cs + 1" for a b
  proof -
    from wf that(1) have "tm ! a \<in> set tm" by (simp add: wellFormedMatrix_def)
    with wf have row: "length (tm ! a) = length cs + 1"
      "\<forall>e\<in>set (tm ! a). 0 \<le> e \<and> 2 * e < MAX_VALUE"
      by (auto simp: wellFormedMatrix_def list_all_iff)
    with that(2) have "tm ! a ! b \<in> set (tm ! a)" by simp
    with row that(2) show ?thesis by (simp add: rowEntry_def)
  qed
  from entry [OF lt(1) lt(2)] entry [OF lt(2) lt(3)] entry [OF lt(1) lt(3)] inc
  show ?thesis by (simp add: num_add_def num_sub_def)
qed

lemma example_wellFormed: "wellFormedMatrix exCustomers exMatrix"
  by (simp add: wellFormedMatrix_def exCustomers_def exMatrix_def MAX_VALUE_def)

subsection \<open>Capacity\<close>

lemma sum_list_filter_le:
  fixes f :: "'a \<Rightarrow> int"
  shows "\<forall>x\<in>set xs. 0 \<le> f x \<Longrightarrow> sum_list (map f (filter p xs)) \<le> sum_list (map f xs)"
  by (induction xs) auto

lemma find_by_distinct_id:
  "distinct (map id_veh vs) \<Longrightarrow> v \<in> set vs \<Longrightarrow> find (\<lambda>w. id_veh w = id_veh v) vs = Some v"
  by (induction vs) auto

lemma capacity_invariant:
  assumes run: "processAll d cs vs tm xs (initSolver d vs) = Inr st"
    and depot: "demand d = 0"
    and dem: "\<forall>c\<in>set xs. 0 \<le> demand c"
    and cap: "\<forall>v\<in>set vs. 0 \<le> capacity v \<and> capacity v < 2 ^ 53"
  shows "\<forall>route\<in>set (routes_st st).
           (\<forall>l\<in>set (locations route). 0 \<le> demand l) \<and>
           (\<forall>v. find (\<lambda>v. id_veh v = vehicleId route) vs = Some v \<longrightarrow>
                sum_list (map demand (locations route)) \<le> capacity v)"
  using run
proof (rule processAll_pointwise)
  show "\<forall>route\<in>set (routes_st (initSolver d vs)).
           (\<forall>l\<in>set (locations route). 0 \<le> demand l) \<and>
           (\<forall>v. find (\<lambda>v. id_veh v = vehicleId route) vs = Some v \<longrightarrow>
                sum_list (map demand (locations route)) \<le> capacity v)"
    using depot cap by (auto simp: initSolver_def initRoute_def find_Some_iff)
next
  fix route :: route
  show "((\<forall>l\<in>set (locations (sansReason route)). 0 \<le> demand l) \<and>
           (\<forall>v. find (\<lambda>v. id_veh v = vehicleId (sansReason route)) vs = Some v \<longrightarrow>
                sum_list (map demand (locations (sansReason route))) \<le> capacity v)) =
        ((\<forall>l\<in>set (locations route). 0 \<le> demand l) \<and>
           (\<forall>v. find (\<lambda>v. id_veh v = vehicleId route) vs = Some v \<longrightarrow>
                sum_list (map demand (locations route)) \<le> capacity v))"
    by simp
next
  fix c :: location and route :: route and i :: nat and inc :: int
  assume c: "c \<in> set xs"
    and inv: "(\<forall>l\<in>set (locations route). 0 \<le> demand l) \<and>
           (\<forall>v. find (\<lambda>v. id_veh v = vehicleId route) vs = Some v \<longrightarrow>
                sum_list (map demand (locations route)) \<le> capacity v)"
    and ok: "capacityOk vs c route"
  from ok obtain v where
    v: "find (\<lambda>v. id_veh v = vehicleId route) vs = Some v" and
    chk: "\<not> js_gt (js_add (routeDemand route) (Finite (demand c))) (Finite (capacity v))"
    by (auto simp: capacityOk_def split: option.splits)
  from v have "v \<in> set vs" by (auto simp: find_Some_iff)
  with cap have capv: "0 \<le> capacity v" "capacity v < 2 ^ 53" by simp_all
  let ?s = "sum_list (map demand (locations route))"
  from inv v have nonneg: "\<forall>l\<in>set (locations route). 0 \<le> demand l" and s: "?s \<le> capacity v"
    by simp_all
  from nonneg have s0: "0 \<le> ?s" by (intro sum_list_nonneg) auto
  from s capv have s53: "?s \<le> 2 ^ 53" by simp
  have "routeDemand route = Finite ?s"
    unfolding routeDemand_def using nonneg s53 by (rule sumDemands_exact)
  with chk have "\<not> js_gt (js_add (Finite ?s) (Finite (demand c))) (Finite (capacity v))"
    by simp
  with s0 dem c s53 capv(2) have fits: "?s + demand c \<le> capacity v"
    by (intro capacity_check_exact) simp_all
  show "(\<forall>l\<in>set (locations (insertCustomer c (Suc i) inc route)). 0 \<le> demand l) \<and>
           (\<forall>v. find (\<lambda>v. id_veh v = vehicleId (insertCustomer c (Suc i) inc route)) vs = Some v \<longrightarrow>
                sum_list (map demand (locations (insertCustomer c (Suc i) inc route))) \<le> capacity v)"
    using nonneg dem c v fits by (simp add: set_splice_at sum_splice_at)
qed

lemma example_dup_run:
  "solveVRPTW exDepot [exSix1, exSix2] [exVehicle, exZeroVehicle] exZeroMatrix3 = Inr exDupSolution"
  by (simp add: solver_eval example_defs exZeroVehicle_def exSix1_def exSix2_def
      exZeroMatrix3_def exDupRoute1_def exDupRoute2_def exDupSolution_def)

lemma example_big_run:
  "solveVRPTW exDepot [exBig, exOne1, exOne2] [exBigVehicle] exZeroMatrix4 = Inr exBigSolution"
  by (simp add: solver_eval example_defs exBigVehicle_def exBig_def exOne1_def exOne2_def
      exZeroMatrix4_def exBigRoute_def exBigSolution_def)

section \<open>The claims\<close>

text \<open>
  C1, for integer demands, vehicles with distinct ids and capacities between 0 and
  \<open>Number.MAX_SAFE_INTEGER\<close>: when moreover the depot has demand 0 and no customer has a
  negative demand, the demands of the locations of every returned route, the depot
  excluded, add up to at most the capacity of the vehicle whose id is the route's
  \<open>vehicleId\<close>; the sum is the same whether the doubles are added in the order of the
  route or exactly, and the same holds with the depot included.
\<close>

theorem C1_capacity_respected:
  assumes "solveVRPTW depot customers vehicles timeMatrix = Inr sol"
    and "demand depot = 0"
    and "\<forall>c\<in>set customers. 0 \<le> demand c"
    and "\<forall>v\<in>set vehicles. 0 \<le> capacity v \<and> capacity v \<le> MAX_SAFE_INTEGER"
    and "distinct (map id_veh vehicles)"
  shows "\<forall>route\<in>set (routes sol). \<forall>v\<in>set vehicles.
           id_veh v = vehicleId route \<longrightarrow>
             sumDemands (filter (\<lambda>l. id_loc l \<noteq> id_loc depot) (locations route)) =
               Finite (sum_list (map demand
                 (filter (\<lambda>l. id_loc l \<noteq> id_loc depot) (locations route)))) \<and>
             sum_list (map demand (filter (\<lambda>l. id_loc l \<noteq> id_loc depot) (locations route)))
               \<le> capacity v \<and>
             routeDemand route = Finite (sum_list (map demand (locations route))) \<and>
             sum_list (map demand (locations route)) \<le> capacity v"
proof (intro ballI impI)
  fix route v
  assume route: "route \<in> set (routes sol)" and v: "v \<in> set vehicles"
    and id: "id_veh v = vehicleId route"
  let ?own = "filter (\<lambda>l. id_loc l \<noteq> id_loc depot) (locations route)"
  from assms(1) obtain st where
    run: "processAll depot customers vehicles timeMatrix (sortedCustomers customers)
            (initSolver depot vehicles) = Inr st" and
    sol: "sol = finish depot st"
    by (rule solveVRPTW_run)
  from route sol obtain route0 where
    route0: "route0 \<in> set (routes_st st)" "route = closeRoute depot route0" by auto
  have cap: "\<forall>v\<in>set vehicles. 0 \<le> capacity v \<and> capacity v < 2 ^ 53"
    using assms(4) by (fastforce simp: MAX_SAFE_INTEGER_def)
  have found: "find (\<lambda>w. id_veh w = vehicleId route0) vehicles = Some v"
    using find_by_distinct_id [OF assms(5) v] id route0(2) by simp
  have dem: "\<forall>c\<in>set (sortedCustomers customers). 0 \<le> demand c"
    using assms(3) by simp
  from capacity_invariant [OF run assms(2) dem cap] route0(1) found have
    nonneg0: "\<forall>l\<in>set (locations route0). 0 \<le> demand l" and
    fits0: "sum_list (map demand (locations route0)) \<le> capacity v"
    by auto
  from route0(2) assms(2) nonneg0 fits0 have
    nonneg: "\<forall>l\<in>set (locations route). 0 \<le> demand l" and
    fits: "sum_list (map demand (locations route)) \<le> capacity v"
    by (auto simp: closeRoute_def)
  from cap v have capv: "capacity v \<le> 2 ^ 53" by auto
  from sum_list_filter_le [OF nonneg] have own_le:
    "sum_list (map demand ?own) \<le> sum_list (map demand (locations route))" .
  have "sumDemands ?own = Finite (sum_list (map demand ?own))"
    using nonneg own_le fits capv by (intro sumDemands_exact) auto
  moreover have "routeDemand route = Finite (sum_list (map demand (locations route)))"
    unfolding routeDemand_def using nonneg fits capv by (intro sumDemands_exact) auto
  ultimately show
    "sumDemands ?own = Finite (sum_list (map demand ?own)) \<and>
     sum_list (map demand ?own) \<le> capacity v \<and>
     routeDemand route = Finite (sum_list (map demand (locations route))) \<and>
     sum_list (map demand (locations route)) \<le> capacity v"
    using own_le fits by simp
qed

theorem C1_capacity_respected_witness:
  "solveVRPTW exDepot exCustomers [exVehicle] exMatrix = Inr exSolution \<and>
   demand exDepot = 0 \<and> list_all (\<lambda>c. 0 \<le> demand c) exCustomers \<and>
   list_all (\<lambda>v. 0 \<le> capacity v \<and> capacity v \<le> MAX_SAFE_INTEGER) [exVehicle] \<and>
   distinct (map id_veh [exVehicle]) \<and>
   exRoute \<in> set (routes exSolution) \<and> exVehicle \<in> set [exVehicle] \<and>
   id_veh exVehicle = vehicleId exRoute \<and>
   sum_list (map demand (filter (\<lambda>l. id_loc l \<noteq> id_loc exDepot) (locations exRoute)))
     \<le> capacity exVehicle"
proof -
  have h2: "demand exDepot = 0" by (simp add: example_defs)
  have h3: "\<forall>c\<in>set exCustomers. 0 \<le> demand c" by (simp add: example_defs)
  have h4: "\<forall>v\<in>set [exVehicle]. 0 \<le> capacity v \<and> capacity v \<le> MAX_SAFE_INTEGER"
    by (simp add: example_defs MAX_SAFE_INTEGER_def)
  have h5: "distinct (map id_veh [exVehicle])" by simp
  have r: "exRoute \<in> set (routes exSolution)" by (simp add: exSolution_def)
  have v: "exVehicle \<in> set [exVehicle]" by simp
  have i: "id_veh exVehicle = vehicleId exRoute" by (simp add: exRoute_def exVehicle_def)
  from C1_capacity_respected [OF example_run h2 h3 h4 h5] r v i
  have "sum_list (map demand (filter (\<lambda>l. id_loc l \<noteq> id_loc exDepot) (locations exRoute)))
     \<le> capacity exVehicle" by blast
  with example_run h2 h3 h4 h5 r v i show ?thesis by (simp add: list_all_iff)
qed

text \<open>
  C1 fails in three ways, each on an input whose depot has demand 0 and whose customers
  have non-negative demands. A vehicle of capacity \<open>-1\<close> and no customer: the route is
  the depot alone and its demand 0 exceeds the capacity. Two vehicles with the same id,
  of capacities 10 and 0, and two customers of demand 6: the lookup by id finds the
  first vehicle for both routes, and the route of the second vehicle carries 6. A
  vehicle of capacity \<open>2 ^ 53\<close> and customers of demands \<open>2 ^ 53\<close>, 1 and 1: each
  capacity check adds the 1 last, where the sum of doubles rounds \<open>2 ^ 53 + 1\<close> to
  \<open>2 ^ 53\<close>, and all three are inserted; in the order of the returned route the
  demands add up to \<open>2 ^ 53 + 2\<close>.
\<close>

theorem C1_counterexample:
  "demand exDepot = 0 \<and>
   solveVRPTW exDepot [] [exNegVehicle] [[0]] = Inr exEmptySolution \<and>
   routes exEmptySolution = [exEmptyRoute] \<and>
   id_veh exNegVehicle = vehicleId exEmptyRoute \<and>
   \<not> sum_list (map demand (filter (\<lambda>l. id_loc l \<noteq> id_loc exDepot) (locations exEmptyRoute)))
       \<le> capacity exNegVehicle \<and>
   0 \<le> demand exSix1 \<and> 0 \<le> demand exSix2 \<and>
   solveVRPTW exDepot [exSix1, exSix2] [exVehicle, exZeroVehicle] exZeroMatrix3
     = Inr exDupSolution \<and>
   routes exDupSolution = [exDupRoute1, exDupRoute2] \<and>
   id_veh exZeroVehicle = vehicleId exDupRoute2 \<and>
   \<not> sum_list (map demand (filter (\<lambda>l. id_loc l \<noteq> id_loc exDepot) (locations exDupRoute2)))
       \<le> capacity exZeroVehicle \<and>
   0 \<le> demand exBig \<and> 0 \<le> demand exOne1 \<and> 0 \<le> demand exOne2 \<and>
   solveVRPTW exDepot [exBig, exOne1, exOne2] [exBigVehicle] exZeroMatrix4
     = Inr exBigSolution \<and>
   routes exBigSolution = [exBigRoute] \<and>
   id_veh exBigVehicle = vehicleId exBigRoute \<and>
   sumDemands (filter (\<lambda>l. id_loc l \<noteq> id_loc exDepot) (locations exBigRoute))
     = Finite (2 ^ 53 + 2) \<and>
   js_gt (sumDemands (filter (\<lambda>l. id_loc l \<noteq> id_loc exDepot) (locations exBigRoute)))
         (Finite (capacity exBigVehicle)) \<and>
   \<not> sum_list (map demand (filter (\<lambda>l. id_loc l \<noteq> id_loc exDepot) (locations exBigRoute)))
       \<le> capacity exBigVehicle"
proof -
  have neg: "demand exDepot = 0 \<and>
   routes exEmptySolution = [exEmptyRoute] \<and>
   id_veh exNegVehicle = vehicleId exEmptyRoute \<and>
   \<not> sum_list (map demand (filter (\<lambda>l. id_loc l \<noteq> id_loc exDepot) (locations exEmptyRoute)))
       \<le> capacity exNegVehicle"
    by (simp add: example_defs exNegVehicle_def exEmptyRoute_def exEmptySolution_def)
  have dup: "0 \<le> demand exSix1 \<and> 0 \<le> demand exSix2 \<and>
   routes exDupSolution = [exDupRoute1, exDupRoute2] \<and>
   id_veh exZeroVehicle = vehicleId exDupRoute2 \<and>
   \<not> sum_list (map demand (filter (\<lambda>l. id_loc l \<noteq> id_loc exDepot) (locations exDupRoute2)))
       \<le> capacity exZeroVehicle"
    by (simp add: example_defs exZeroVehicle_def exSix1_def exSix2_def exDupRoute2_def
        exDupSolution_def)
  have big: "0 \<le> demand exBig \<and> 0 \<le> demand exOne1 \<and> 0 \<le> demand exOne2 \<and>
   routes exBigSolution = [exBigRoute] \<and>
   id_veh exBigVehicle = vehicleId exBigRoute \<and>
   sumDemands (filter (\<lambda>l. id_loc l \<noteq> id_loc exDepot) (locations exBigRoute))
     = Finite (2 ^ 53 + 2) \<and>
   js_gt (sumDemands (filter (\<lambda>l. id_loc l \<noteq> id_loc exDepot) (locations exBigRoute)))
         (Finite (capacity exBigVehicle)) \<and>
   \<not> sum_list (map demand (filter (\<lambda>l. id_loc l \<noteq> id_loc exDepot) (locations exBigRoute)))
       \<le> capacity exBigVehicle"
    by (simp add: example_defs exBigVehicle_def exBig_def exOne1_def exOne2_def exBigRoute_def
        exBigSolution_def sumDemands_def roundDouble_def ulp_small ulp_step Let_def)
  from neg dup big example_empty_run example_dup_run example_big_run show ?thesis
    by blast
qed

text \<open>
  C2, at the moment of the attempt: for a square time matrix over the customers and the
  depot whose entries are non-negative and below half of \<open>Number.MAX_VALUE\<close>, every
  customer of \<open>unassignedLocations\<close> is a customer that, when its turn came in the loop
  over the sorted customers, had no route and position passing the three checks over
  the routes as they stood at that moment.
\<close>

theorem C2_unassigned_had_no_slot_when_tried:
  assumes "solveVRPTW depot customers vehicles timeMatrix = Inr sol"
    and "wellFormedMatrix customers timeMatrix"
  shows "\<forall>c\<in>set (unassignedLocations sol).
           \<exists>k<length customers. sortedCustomers customers ! k = c \<and>
             (\<exists>st. processAll depot customers vehicles timeMatrix
                     (take k (sortedCustomers customers)) (initSolver depot vehicles) = Inr st \<and>
                   (\<forall>r i inc. \<not> feasibleSlot depot customers vehicles timeMatrix
                                   (routes_st st) c r i inc))"
proof
  fix c assume c: "c \<in> set (unassignedLocations sol)"
  from assms(1) obtain st' where
    run: "processAll depot customers vehicles timeMatrix (sortedCustomers customers)
            (initSolver depot vehicles) = Inr st'" and
    sol: "sol = finish depot st'"
    by (rule solveVRPTW_run)
  have len: "length (sortedCustomers customers) = length customers"
    by (simp add: sortedCustomers_def)
  from unassigned_history [OF run] c sol obtain k st where
    k: "k < length customers" "sortedCustomers customers ! k = c" and
    st: "processAll depot customers vehicles timeMatrix
           (take k (sortedCustomers customers)) (initSolver depot vehicles) = Inr st" and
    none: "\<forall>r i inc. feasibleSlot depot customers vehicles timeMatrix (routes_st st) c r i inc
             \<longrightarrow> \<not> num_lt inc (Some MAX_VALUE)"
    unfolding len by (auto simp: initSolver_def)
  have "\<not> feasibleSlot depot customers vehicles timeMatrix (routes_st st) c r i inc" for r i inc
  proof
    assume f: "feasibleSlot depot customers vehicles timeMatrix (routes_st st) c r i inc"
    then have "checkSlot depot customers timeMatrix c (routes_st st ! r) i = Inr (Feasible inc)"
      by (simp add: feasibleSlot_def)
    then have "num_lt inc (Some MAX_VALUE)"
      by (rule feasible_cost_bounded [OF assms(2)])
    with none f show False by blast
  qed
  with k st show "\<exists>k<length customers. sortedCustomers customers ! k = c \<and>
             (\<exists>st. processAll depot customers vehicles timeMatrix
                     (take k (sortedCustomers customers)) (initSolver depot vehicles) = Inr st \<and>
                   (\<forall>r i inc. \<not> feasibleSlot depot customers vehicles timeMatrix
                                   (routes_st st) c r i inc))"
    by blast
qed

theorem C2_unassigned_had_no_slot_when_tried_witness:
  "solveVRPTW exDepot exCustomers [exVehicle] exMatrix = Inr exSolution \<and>
   wellFormedMatrix exCustomers exMatrix \<and>
   exA \<in> set (unassignedLocations exSolution) \<and>
   (\<exists>k<length exCustomers. sortedCustomers exCustomers ! k = exA \<and>
      (\<exists>st. processAll exDepot exCustomers [exVehicle] exMatrix
              (take k (sortedCustomers exCustomers)) (initSolver exDepot [exVehicle]) = Inr st))"
proof -
  have "exA \<in> set (unassignedLocations exSolution)" by (simp add: exSolution_def)
  with C2_unassigned_had_no_slot_when_tried [OF example_run example_wellFormed]
    example_run example_wellFormed
  show ?thesis by blast
qed

text \<open>
  C2 fails on the returned routes: the solver returns the customer \<open>c2\<close> unassigned (it
  was late at both positions of the route depot, c1 when its turn came), and on the
  returned route depot, c3, c1, depot the position after \<open>c3\<close> passes the capacity check
  and both time-window checks for \<open>c2\<close>, at cost 6.
\<close>

theorem C2_counterexample:
  "solveVRPTW exDepot exCustomers [exVehicle] exMatrix = Inr exSolution \<and>
   wellFormedMatrix exCustomers exMatrix \<and>
   exA \<in> set (unassignedLocations exSolution) \<and>
   feasibleSlot exDepot exCustomers [exVehicle] exMatrix (routes exSolution) exA 0 1 (Some 6)"
proof -
  have "feasibleSlot exDepot exCustomers [exVehicle] exMatrix (routes exSolution) exA 0 1 (Some 6)"
    by (simp add: feasibleSlot_def capacityOk_def solver_eval example_defs)
  moreover have "exA \<in> set (unassignedLocations exSolution)" by (simp add: exSolution_def)
  ultimately show ?thesis using example_run example_wellFormed by simp
qed

text \<open>
  C3: the total distance of the solution is the sum of the totals of its routes, and the
  total of each route is the sum of the Haversine distances over the consecutive pairs
  of its final sequence of locations: recomputing it from the sequence gives the stored
  value.
\<close>

theorem C3_distance_round_trip:
  assumes "solveVRPTW depot customers vehicles timeMatrix = Inr sol"
  shows "totalDistance_sol sol = sum_list (map totalDistance (routes sol)) \<and>
         (\<forall>route\<in>set (routes sol).
            totalDistance route = routeDistance (locations route) \<and>
            totalDistance route =
              (\<Sum>i\<leftarrow>[0..<length (locations route) - 1].
                 distanceBetween (locations route ! i) (locations route ! (i + 1))))"
proof -
  from assms obtain st where
    run: "processAll depot customers vehicles timeMatrix (sortedCustomers customers)
            (initSolver depot vehicles) = Inr st" and
    sol: "sol = finish depot st"
    by (rule solveVRPTW_run)
  have "\<forall>route\<in>set (routes_st st). totalDistance route = routeDistance (locations route)"
    using run
  proof (rule processAll_pointwise)
    show "\<forall>route\<in>set (routes_st (initSolver depot vehicles)).
            totalDistance route = routeDistance (locations route)"
      by (simp add: initSolver_def initRoute_def routeDistance_def)
  qed simp_all
  then have "\<forall>route\<in>set (routes sol). totalDistance route = routeDistance (locations route)"
    using sol by (simp add: closeRoute_distance)
  moreover have "totalDistance_sol sol = sum_list (map totalDistance (routes sol))"
    using sol by (simp add: finish_def Let_def foldl_add_sum_list)
  ultimately show ?thesis
    using routeDistance_sum by simp
qed

theorem C3_distance_round_trip_witness:
  "solveVRPTW exDepot exCustomers [exVehicle] exMatrix = Inr exSolution \<and>
   totalDistance_sol exSolution = sum_list (map totalDistance (routes exSolution)) \<and>
   list_all (\<lambda>route. totalDistance route = routeDistance (locations route)) (routes exSolution)"
  using C3_distance_round_trip [OF example_run] example_run
  by (simp add: list_all_iff)

text \<open>
  C4: when no customer carries the identifier of the depot, every route of the returned
  solution starts at the depot and ends at the depot; a route that received no customer
  is the depot alone, and a route that received customers has the depot appended.
\<close>

theorem C4_routes_start_and_end_at_depot:
  assumes "solveVRPTW depot customers vehicles timeMatrix = Inr sol"
    and "\<forall>c\<in>set customers. id_loc c \<noteq> id_loc depot"
  shows "\<forall>route\<in>set (routes sol).
           hd (locations route) = depot \<and> last (locations route) = depot \<and>
           (\<exists>cs'. set cs' \<subseteq> set customers \<and>
                  locations route = (if cs' = [] then [depot] else depot # cs' @ [depot]))"
proof
  fix route assume "route \<in> set (routes sol)"
  from assms(1) obtain st where
    run: "processAll depot customers vehicles timeMatrix (sortedCustomers customers)
            (initSolver depot vehicles) = Inr st" and
    sol: "sol = finish depot st"
    by (rule solveVRPTW_run)
  from \<open>route \<in> set (routes sol)\<close> sol obtain route0 where
    route0: "route0 \<in> set (routes_st st)" "route = closeRoute depot route0" by auto
  with routes_start_at_depot [OF run] obtain cs' where
    cs': "set cs' \<subseteq> set customers" "locations route0 = depot # cs'" by auto
  have "cs' \<noteq> [] \<Longrightarrow> id_loc (last cs') \<noteq> id_loc depot"
    using cs'(1) assms(2) last_in_set by blast
  with closeRoute_locations' [OF cs'(2)] route0(2) have
    locs: "locations route = (if cs' = [] then [depot] else depot # cs' @ [depot])"
    by auto
  then have "hd (locations route) = depot \<and> last (locations route) = depot" by simp
  with locs cs'(1) show
    "hd (locations route) = depot \<and> last (locations route) = depot \<and>
           (\<exists>cs'. set cs' \<subseteq> set customers \<and>
                  locations route = (if cs' = [] then [depot] else depot # cs' @ [depot]))"
    by blast
qed

theorem C4_routes_start_and_end_at_depot_witness:
  "solveVRPTW exDepot exCustomers [exVehicle] exMatrix = Inr exSolution \<and>
   list_all (\<lambda>c. id_loc c \<noteq> id_loc exDepot) exCustomers \<and>
   list_all (\<lambda>route. hd (locations route) = exDepot \<and> last (locations route) = exDepot)
     (routes exSolution)"
proof -
  have ids: "\<forall>c\<in>set exCustomers. id_loc c \<noteq> id_loc exDepot"
    by (simp add: example_defs)
  from C4_routes_start_and_end_at_depot [OF example_run ids] example_run ids
  show ?thesis by (simp add: list_all_iff)
qed

text \<open>
  C5: no step of the construction sets a route's flag \<open>feasible\<close> to false: every route
  of the returned solution has \<open>feasible = true\<close>, and the flag of the solution says
  whether \<open>unassignedLocations\<close> is empty.
\<close>

theorem C5_route_flag_always_true:
  assumes "solveVRPTW depot customers vehicles timeMatrix = Inr sol"
  shows "(\<forall>route\<in>set (routes sol). feasible route) \<and>
         feasible_sol sol = (unassignedLocations sol = [])"
proof -
  from assms obtain st where
    run: "processAll depot customers vehicles timeMatrix (sortedCustomers customers)
            (initSolver depot vehicles) = Inr st" and
    sol: "sol = finish depot st"
    by (rule solveVRPTW_run)
  have "\<forall>route\<in>set (routes_st st). feasible route"
    using run
  proof (rule processAll_pointwise)
    show "\<forall>route\<in>set (routes_st (initSolver depot vehicles)). feasible route"
      by (simp add: initSolver_def initRoute_def)
  qed simp_all
  then show ?thesis
    using sol by (simp add: list_all_iff)
qed

theorem C5_route_flag_always_true_witness:
  "solveVRPTW exDepot exCustomers [exVehicle] exMatrix = Inr exSolution \<and>
   list_all feasible (routes exSolution) \<and>
   feasible_sol exSolution = (unassignedLocations exSolution = [])"
  using C5_route_flag_always_true [OF example_run] example_run
  by (simp add: list_all_iff)

text \<open>
  C6: in the body of the loop over the sorted customers, a customer for which no slot
  passes the three checks is appended to \<open>unassignedLocations\<close> together with a reason
  in \<open>infeasibilityReasons\<close>; when some slot passed them (the flag
  \<open>assignmentPossible\<close>) no reason is appended, whether or not the customer is
  assigned. So the list of reasons need not hold one reason for each unassigned
  customer: for a customer whose only feasible slot costs \<open>Number.MAX_VALUE\<close> the
  solver returns one unassigned customer and no reason.
\<close>

theorem C6_reason_only_without_feasible_slot:
  assumes "processCustomer depot customers vehicles timeMatrix customer st = Inr st'"
  shows "((\<exists>r i inc. feasibleSlot depot customers vehicles timeMatrix (routes_st st) customer r i inc)
            \<longrightarrow> reasons_st st' = reasons_st st) \<and>
         (\<not> (\<exists>r i inc. feasibleSlot depot customers vehicles timeMatrix (routes_st st) customer r i inc)
            \<longrightarrow> unassigned_st st' = unassigned_st st @ [customer] \<and>
                reasons_st st' = reasons_st st @ [msgUnassigned customer]) \<and>
         (unassigned_st st' = unassigned_st st \<and> reasons_st st' = reasons_st st \<or>
          unassigned_st st' = unassigned_st st @ [customer]) \<and>
         solveVRPTW exDepot [exHuge] [exVehicle] exHugeMatrix = Inr exHugeSolution \<and>
         length (infeasibilityReasons exHugeSolution) < length (unassignedLocations exHugeSolution)"
proof -
  have "length (infeasibilityReasons exHugeSolution) < length (unassignedLocations exHugeSolution)"
    by (simp add: exHugeSolution_def)
  with processCustomer_spec [OF assms] example_huge_run show ?thesis
    by (elim disjE exE conjE) auto
qed

theorem C6_reason_only_without_feasible_slot_witness:
  "processCustomer exDepot exCustomers [exVehicle] exMatrix exA exState1 = Inr exState2 \<and>
   unassigned_st exState2 = unassigned_st exState1 @ [exA] \<and>
   solveVRPTW exDepot [exHuge] [exVehicle] exHugeMatrix = Inr exHugeSolution \<and>
   length (infeasibilityReasons exHugeSolution) < length (unassignedLocations exHugeSolution)"
proof -
  have "unassigned_st exState2 = unassigned_st exState1 @ [exA]"
    by (simp add: exState1_def exState2_def)
  with C6_reason_only_without_feasible_slot [OF example_step2] example_step2
  show ?thesis by blast
qed

text \<open>
  C7: \<open>generateTimeMatrix\<close> returns a square matrix over the positions of the list; the
  entry \<open>(i, j)\<close> is 0 on the diagonal and elsewhere the rounded travel time at 50 km/h
  of the Haversine distance between location \<open>i\<close> and location \<open>j\<close>; the matrix is
  symmetric.
\<close>

theorem C7_time_matrix:
  "length (generateTimeMatrix locs) = length locs \<and>
   (\<forall>i<length locs. length (generateTimeMatrix locs ! i) = length locs) \<and>
   (\<forall>i<length locs. \<forall>j<length locs.
      generateTimeMatrix locs ! i ! j =
        (if i = j then 0
         else Math_round ((calculateDistance (lat (locs ! i)) (lng (locs ! i))
                                             (lat (locs ! j)) (lng (locs ! j)) / 50) * 60)) \<and>
      generateTimeMatrix locs ! i ! j = generateTimeMatrix locs ! j ! i)"
proof (intro conjI allI impI)
  show "length (generateTimeMatrix locs) = length locs"
    by (simp add: generateTimeMatrix_def)
next
  fix i assume "i < length locs"
  then show "length (generateTimeMatrix locs ! i) = length locs"
    by (simp add: generateTimeMatrix_def)
next
  fix i j assume "i < length locs" "j < length locs"
  then show "generateTimeMatrix locs ! i ! j =
        (if i = j then 0
         else Math_round ((calculateDistance (lat (locs ! i)) (lng (locs ! i))
                                             (lat (locs ! j)) (lng (locs ! j)) / 50) * 60))"
    by (simp add: generateTimeMatrix_entry distanceBetween_def)
next
  fix i j assume "i < length locs" "j < length locs"
  then show "generateTimeMatrix locs ! i ! j = generateTimeMatrix locs ! j ! i"
    using distanceBetween_sym [of "locs ! i" "locs ! j"]
    by (simp add: generateTimeMatrix_entry)
qed

theorem C7_time_matrix_witness:
  "length (generateTimeMatrix [exDepot, exC]) = 2 \<and>
   generateTimeMatrix [exDepot, exC] ! 0 ! 0 = 0 \<and>
   generateTimeMatrix [exDepot, exC] ! 0 ! 1 =
     Math_round ((calculateDistance (lat exDepot) (lng exDepot) (lat exC) (lng exC) / 50) * 60) \<and>
   generateTimeMatrix [exDepot, exC] ! 0 ! 1 = generateTimeMatrix [exDepot, exC] ! 1 ! 0"
proof -
  note t = C7_time_matrix [of "[exDepot, exC]"]
  have len: "length [exDepot, exC] = 2" by simp
  from t have e: "\<And>i j. i < 2 \<Longrightarrow> j < 2 \<Longrightarrow>
      generateTimeMatrix [exDepot, exC] ! i ! j =
        (if i = j then 0
         else Math_round ((calculateDistance (lat ([exDepot, exC] ! i)) (lng ([exDepot, exC] ! i))
                             (lat ([exDepot, exC] ! j)) (lng ([exDepot, exC] ! j)) / 50) * 60)) \<and>
      generateTimeMatrix [exDepot, exC] ! i ! j = generateTimeMatrix [exDepot, exC] ! j ! i"
    unfolding len by blast
  from t have "length (generateTimeMatrix [exDepot, exC]) = 2" unfolding len by blast
  with e [of 0 0] e [of 0 1] show ?thesis by simp
qed

text \<open>
  C8: a customer that is assigned is inserted at a slot that passes the three checks
  (capacity, own time window, time window of the next stop); its insertion cost,
  \<open>timeToCustomer + timeFromCustomer - timeMatrix[prev][next]\<close>, is added to the total
  time of the route; no slot that passes the checks costs strictly less; and among the
  slots that pass them at the same cost it is the first in the order of the search
  (routes in input order, positions in route order). The other routes keep their
  locations.
\<close>

theorem C8_cheapest_slot_first_wins:
  assumes "processCustomer depot customers vehicles timeMatrix customer st = Inr st'"
    and "unassigned_st st' = unassigned_st st"
  shows "\<exists>r i inc.
           feasibleSlot depot customers vehicles timeMatrix (routes_st st) customer r i (Some inc) \<and>
           (\<exists>p k n.
              findIndex (\<lambda>l. id_loc l = id_loc (locations (routes_st st ! r) ! i))
                (customers @ [depot]) = Some p \<and>
              findIndex (\<lambda>l. id_loc l = id_loc customer) (customers @ [depot]) = Some k \<and>
              findIndex (\<lambda>l. id_loc l =
                           id_loc (if i + 1 < length (locations (routes_st st ! r))
                                   then locations (routes_st st ! r) ! (i + 1) else depot))
                (customers @ [depot]) = Some n \<and>
              Some inc = num_sub (num_add (rowEntry (timeMatrix ! p) k)
                                          (rowEntry (timeMatrix ! k) n))
                                 (rowEntry (timeMatrix ! p) n)) \<and>
           locations (routes_st st' ! r) =
             splice_at (Suc i) customer (locations (routes_st st ! r)) \<and>
           totalTime (routes_st st' ! r) = totalTime (routes_st st ! r) + inc \<and>
           length (routes_st st') = length (routes_st st) \<and>
           (\<forall>r'<length (routes_st st).
              r' \<noteq> r \<longrightarrow> locations (routes_st st' ! r') = locations (routes_st st ! r')) \<and>
           (\<forall>r' i' inc'.
              feasibleSlot depot customers vehicles timeMatrix (routes_st st) customer r' i' inc'
              \<longrightarrow> \<not> num_lt inc' (Some inc)) \<and>
           (\<forall>r' i'.
              feasibleSlot depot customers vehicles timeMatrix (routes_st st) customer r' i' (Some inc)
              \<longrightarrow> r < r' \<or> (r = r' \<and> i \<le> i'))"
proof -
  from processCustomer_spec [OF assms(1)] assms(2) obtain r i inc where
    feas: "feasibleSlot depot customers vehicles timeMatrix (routes_st st) customer r i (Some inc)"
    and least: "\<forall>r' i' inc'.
              feasibleSlot depot customers vehicles timeMatrix (routes_st st) customer r' i' inc'
              \<longrightarrow> \<not> num_lt inc' (Some inc)"
    and first: "\<forall>r' i'.
              feasibleSlot depot customers vehicles timeMatrix (routes_st st) customer r' i' (Some inc)
              \<longrightarrow> r < r' \<or> (r = r' \<and> i \<le> i')"
    and upd: "map sansReason (routes_st st') =
              (map sansReason (routes_st st))
                [r := sansReason (insertCustomer customer (Suc i) inc (routes_st st ! r))]"
    by auto
  from feas have r: "r < length (routes_st st)"
    and chk: "checkSlot depot customers timeMatrix customer (routes_st st ! r) i
                = Inr (Feasible (Some inc))"
    by (simp_all add: feasibleSlot_def)
  from upd have len: "length (routes_st st') = length (routes_st st)"
    by (metis length_list_update length_map)
  have at: "sansReason (routes_st st' ! r') =
            (map sansReason (routes_st st))
                [r := sansReason (insertCustomer customer (Suc i) inc (routes_st st ! r))] ! r'"
    if "r' < length (routes_st st)" for r'
    using that len upd by (metis nth_map)
  have "sansReason (routes_st st' ! r) =
        sansReason (insertCustomer customer (Suc i) inc (routes_st st ! r))"
    using at [OF r] r by simp
  then have "locations (sansReason (routes_st st' ! r)) =
               locations (sansReason (insertCustomer customer (Suc i) inc (routes_st st ! r)))"
    and "totalTime (sansReason (routes_st st' ! r)) =
               totalTime (sansReason (insertCustomer customer (Suc i) inc (routes_st st ! r)))"
    by simp_all
  then have new: "locations (routes_st st' ! r) =
                    splice_at (Suc i) customer (locations (routes_st st ! r))"
      "totalTime (routes_st st' ! r) = totalTime (routes_st st ! r) + inc"
    by simp_all
  have others: "locations (routes_st st' ! r') = locations (routes_st st ! r')"
    if "r' < length (routes_st st)" "r' \<noteq> r" for r'
  proof -
    from at [OF that(1)] that have
      "sansReason (routes_st st' ! r') = sansReason (routes_st st ! r')" by simp
    then have "locations (sansReason (routes_st st' ! r')) =
               locations (sansReason (routes_st st ! r'))" by simp
    then show ?thesis by simp
  qed
  from checkSlot_cost [OF chk] feas new others len least first show ?thesis
    by blast
qed


theorem C8_cheapest_slot_first_wins_witness:
  "processCustomer exDepot exCustomers [exVehicle] exMatrix exB exState2 = Inr exState3 \<and>
   unassigned_st exState3 = unassigned_st exState2 \<and>
   (\<exists>r i inc.
      feasibleSlot exDepot exCustomers [exVehicle] exMatrix (routes_st exState2) exB r i (Some inc) \<and>
      locations (routes_st exState3 ! r) =
        splice_at (Suc i) exB (locations (routes_st exState2 ! r)) \<and>
      totalTime (routes_st exState3 ! r) = totalTime (routes_st exState2 ! r) + inc)"
proof -
  have same: "unassigned_st exState3 = unassigned_st exState2"
    by (simp add: exState2_def exState3_def)
  from C8_cheapest_slot_first_wins [OF example_step3 same] example_step3 same
  show ?thesis by blast
qed

text \<open>
  C9: when the time matrix has a row for every customer and for the depot, the solver
  raises no error and returns a solution. In every state that the loop over the
  customers reaches, the vehicle lookup of every route finds a vehicle (the routes carry
  the ids of the input vehicles), and a slot of which the index of \<open>prev\<close>, of the
  customer or of \<open>next\<close> is missing is skipped: it changes neither the route nor the
  search. So no run of the solver meets a vehicle lookup that finds nothing.
\<close>

theorem C9_no_fatal_error:
  assumes "length customers < length timeMatrix"
  shows "(\<exists>sol. solveVRPTW depot customers vehicles timeMatrix = Inr sol) \<and>
         (\<forall>xs st. processAll depot customers vehicles timeMatrix xs (initSolver depot vehicles)
                    = Inr st \<longrightarrow>
                  (\<forall>route\<in>set (routes_st st).
                     find (\<lambda>v. id_veh v = vehicleId route) vehicles \<noteq> None)) \<and>
         (\<forall>(customer :: location) (route :: route) r i s.
            findIndex (\<lambda>l. id_loc l = id_loc (locations route ! i)) (customers @ [depot]) = None \<or>
            findIndex (\<lambda>l. id_loc l = id_loc customer) (customers @ [depot]) = None \<or>
            findIndex (\<lambda>l. id_loc l =
                         id_loc (if i + 1 < length (locations route)
                                 then locations route ! (i + 1) else depot))
              (customers @ [depot]) = None \<longrightarrow>
            trySlot depot customers timeMatrix customer r i (route, s) = Inr (route, s))"
proof (intro conjI allI impI)
  from processAll_total [OF assms] obtain st where
    "processAll depot customers vehicles timeMatrix (sortedCustomers customers)
       (initSolver depot vehicles) = Inr st" by blast
  then show "\<exists>sol. solveVRPTW depot customers vehicles timeMatrix = Inr sol"
    by (simp add: solveVRPTW_def)
next
  fix xs st
  assume "processAll depot customers vehicles timeMatrix xs (initSolver depot vehicles) = Inr st"
  then show "\<forall>route\<in>set (routes_st st). find (\<lambda>v. id_veh v = vehicleId route) vehicles \<noteq> None"
    by (rule vehicle_found_invariant)
next
  fix customer :: location and route :: route and r i :: nat and s :: search
  assume "findIndex (\<lambda>l. id_loc l = id_loc (locations route ! i)) (customers @ [depot]) = None \<or>
            findIndex (\<lambda>l. id_loc l = id_loc customer) (customers @ [depot]) = None \<or>
            findIndex (\<lambda>l. id_loc l =
                         id_loc (if i + 1 < length (locations route)
                                 then locations route ! (i + 1) else depot))
              (customers @ [depot]) = None"
  then have "checkSlot depot customers timeMatrix customer route i = Inr Skipped"
    unfolding checkSlot_def Let_def by (auto split: option.splits)
  then show "trySlot depot customers timeMatrix customer r i (route, s) = Inr (route, s)"
    by (simp add: trySlot_def)
qed

theorem C9_no_fatal_error_witness:
  "length exCustomers < length exMatrix \<and>
   solveVRPTW exDepot exCustomers [exVehicle] exMatrix = Inr exSolution \<and>
   (\<exists>sol. solveVRPTW exDepot exCustomers [exVehicle] exMatrix = Inr sol)"
proof -
  have h: "length exCustomers < length exMatrix" by (simp add: example_defs)
  from C9_no_fatal_error [OF h, of exDepot "[exVehicle]"] h example_run
  show ?thesis by blast
qed

text \<open>
  C10: the returned solution has one route per input vehicle, in the order of the
  vehicles, and the customers placed on the routes (each route is the depot, its
  customers, and the closing depot where the solver appends it) together with the
  unassigned customers are exactly the input customers, each as often as it occurs in
  the input.
\<close>

theorem C10_customers_partitioned:
  assumes "solveVRPTW depot customers vehicles timeMatrix = Inr sol"
  shows "map vehicleId (routes sol) = map id_veh vehicles \<and>
         (\<exists>css. length css = length vehicles \<and>
            (\<forall>k<length vehicles.
               locations (routes sol ! k) =
                 depot # css ! k @
                   (if css ! k = [] \<or> id_loc (last (css ! k)) = id_loc depot then [] else [depot])) \<and>
            mset (concat css) + mset (unassignedLocations sol) = mset customers)"
proof -
  from assms obtain st where
    run: "processAll depot customers vehicles timeMatrix (sortedCustomers customers)
            (initSolver depot vehicles) = Inr st" and
    sol: "sol = finish depot st"
    by (rule solveVRPTW_run)
  let ?css = "map (\<lambda>route. tl (locations route)) (routes_st st)"
  have ids: "map vehicleId (routes_st st) = map id_veh vehicles"
    using processAll_vehicleIds [OF run] by (simp add: initSolver_def initRoute_def comp_def)
  then have len: "length (routes_st st) = length vehicles"
    by (metis length_map)
  have "map vehicleId (routes sol) = map id_veh vehicles"
    using ids sol by (simp add: comp_def)
  moreover have "length ?css = length vehicles" using len by simp
  moreover have "\<forall>k<length vehicles.
               locations (routes sol ! k) =
                 depot # ?css ! k @
                   (if ?css ! k = [] \<or> id_loc (last (?css ! k)) = id_loc depot
                    then [] else [depot])"
  proof (intro allI impI)
    fix k assume k: "k < length vehicles"
    with len have "routes_st st ! k \<in> set (routes_st st)" by simp
    with routes_start_at_depot [OF run] obtain cs' where
      "locations (routes_st st ! k) = depot # cs'" by blast
    from closeRoute_locations' [OF this] this k len sol
    show "locations (routes sol ! k) =
                 depot # ?css ! k @
                   (if ?css ! k = [] \<or> id_loc (last (?css ! k)) = id_loc depot
                    then [] else [depot])"
      by simp
  qed
  moreover have "mset (concat ?css) + mset (unassignedLocations sol) = mset customers"
    using processAll_partition [OF run] sol
    by (simp add: initSolver_def initRoute_def comp_def)
  ultimately show ?thesis by blast
qed

theorem C10_customers_partitioned_witness:
  "solveVRPTW exDepot exCustomers [exVehicle] exMatrix = Inr exSolution \<and>
   map vehicleId (routes exSolution) = map id_veh [exVehicle] \<and>
   locations (routes exSolution ! 0) = exDepot # [exB, exC] @ [exDepot] \<and>
   mset (concat [[exB, exC]]) + mset (unassignedLocations exSolution) = mset exCustomers"
proof -
  from C10_customers_partitioned [OF example_run]
  have "map vehicleId (routes exSolution) = map id_veh [exVehicle]" by simp
  moreover have "locations (routes exSolution ! 0) = exDepot # [exB, exC] @ [exDepot]"
    by (simp add: exSolution_def exRoute_def)
  moreover have "mset (concat [[exB, exC]]) + mset (unassignedLocations exSolution) =
                 mset exCustomers"
    by (simp add: exSolution_def exCustomers_def)
  ultimately show ?thesis using example_run by simp
qed

end
